theory Spec2Isabelle
  imports Main "HOL-Library.Monad_Syntax" "HOL-Library.Multiset" "HOL-Library.Extended_Nat"
begin

section \<open>Strings of the source language\<close>

text \<open>
  The importer is TypeScript. A string is modelled as the list of its Unicode code points
  (natural numbers); on the Basic Multilingual Plane, where all the text of the corpus lives,
  code points and UTF-16 code units coincide. \<open>js\<close> writes an ASCII literal of the source.
  The sums of letter values and the positions are modelled as natural numbers, which the
  numbers of the language hold exactly below \<open>2^53\<close>; the numbers that \<^verbatim>\<open>parseInt\<close> reads
  from a reference are modelled as doubles (a natural number or \<open>Infinity\<close>).
\<close>

type_synonym jsstring = "nat list"

definition js :: "string \<Rightarrow> jsstring" where
  "js s = map of_char s"

text \<open>\<^verbatim>\<open>s.includes(n)\<close>: \<open>n\<close> occurs in \<open>s\<close> as a contiguous substring.\<close>

fun jsIncludes :: "jsstring \<Rightarrow> jsstring \<Rightarrow> bool" where
  "jsIncludes [] n = (n = [])"
| "jsIncludes (x # xs) n = (take (length n) (x # xs) = n \<or> jsIncludes xs n)"

subsection \<open>Case conversion\<close>

text \<open>
  \<^verbatim>\<open>String.prototype.toLowerCase\<close> is a built-in of the language: the Unicode default
  lower-case conversion. It is modelled on a repertoire of code points: Basic Latin
  (U+0000..U+007F), Combining Diacritical Marks and Greek and Coptic (U+0300..U+03FF), Greek
  Extended (U+1F00..U+1FFF), the characters those decompose to (U+00A8, U+00B4, U+00B7,
  U+02B9), the Kelvin sign U+212A, and two combining marks of other scripts (U+0483, U+0591).
  On this repertoire the tables below are those of the Unicode Character Database; a code
  point outside it is treated as an uncased, non-combining character without decomposition.
\<close>

definition inRepertoire :: "nat \<Rightarrow> bool" where
  "inRepertoire c =
     (c < 0x80 \<or> (0x300 \<le> c \<and> c < 0x400) \<or> (0x1F00 \<le> c \<and> c < 0x2000) \<or>
      c \<in> set [0xA8, 0xB4, 0xB7, 0x2B9, 0x483, 0x591, 0x212A])"

definition inRanges :: "(nat \<times> nat) list \<Rightarrow> nat \<Rightarrow> bool" where
  "inRanges rs c = list_ex (\<lambda>(lo, hi). lo \<le> c \<and> c \<le> hi) rs"

text \<open>
  Simple lower-case mappings (UnicodeData, field 13) of the repertoire, in rows of sixteen
  code points: \<open>lowerRow r\<close> holds the mappings of the code points \<open>c\<close> with
  \<open>c div 16 = r\<close>.
\<close>

definition lowerRow :: "nat \<Rightarrow> (nat \<times> nat) list" where
  "lowerRow r =
    (if r = 0x004 then
       [(0x0041, 0x0061), (0x0042, 0x0062), (0x0043, 0x0063), (0x0044, 0x0064),
        (0x0045, 0x0065), (0x0046, 0x0066), (0x0047, 0x0067), (0x0048, 0x0068),
        (0x0049, 0x0069), (0x004A, 0x006A), (0x004B, 0x006B), (0x004C, 0x006C),
        (0x004D, 0x006D), (0x004E, 0x006E), (0x004F, 0x006F)]
     else if r = 0x005 then
       [(0x0050, 0x0070), (0x0051, 0x0071), (0x0052, 0x0072), (0x0053, 0x0073),
        (0x0054, 0x0074), (0x0055, 0x0075), (0x0056, 0x0076), (0x0057, 0x0077),
        (0x0058, 0x0078), (0x0059, 0x0079), (0x005A, 0x007A)]
     else if r = 0x037 then
       [(0x0370, 0x0371), (0x0372, 0x0373), (0x0376, 0x0377), (0x037F, 0x03F3)]
     else if r = 0x038 then
       [(0x0386, 0x03AC), (0x0388, 0x03AD), (0x0389, 0x03AE), (0x038A, 0x03AF),
        (0x038C, 0x03CC), (0x038E, 0x03CD), (0x038F, 0x03CE)]
     else if r = 0x039 then
       [(0x0391, 0x03B1), (0x0392, 0x03B2), (0x0393, 0x03B3), (0x0394, 0x03B4),
        (0x0395, 0x03B5), (0x0396, 0x03B6), (0x0397, 0x03B7), (0x0398, 0x03B8),
        (0x0399, 0x03B9), (0x039A, 0x03BA), (0x039B, 0x03BB), (0x039C, 0x03BC),
        (0x039D, 0x03BD), (0x039E, 0x03BE), (0x039F, 0x03BF)]
     else if r = 0x03A then
       [(0x03A0, 0x03C0), (0x03A1, 0x03C1), (0x03A3, 0x03C3), (0x03A4, 0x03C4),
        (0x03A5, 0x03C5), (0x03A6, 0x03C6), (0x03A7, 0x03C7), (0x03A8, 0x03C8),
        (0x03A9, 0x03C9), (0x03AA, 0x03CA), (0x03AB, 0x03CB)]
     else if r = 0x03C then
       [(0x03CF, 0x03D7)]
     else if r = 0x03D then
       [(0x03D8, 0x03D9), (0x03DA, 0x03DB), (0x03DC, 0x03DD), (0x03DE, 0x03DF)]
     else if r = 0x03E then
       [(0x03E0, 0x03E1), (0x03E2, 0x03E3), (0x03E4, 0x03E5), (0x03E6, 0x03E7),
        (0x03E8, 0x03E9), (0x03EA, 0x03EB), (0x03EC, 0x03ED), (0x03EE, 0x03EF)]
     else if r = 0x03F then
       [(0x03F4, 0x03B8), (0x03F7, 0x03F8), (0x03F9, 0x03F2), (0x03FA, 0x03FB),
        (0x03FD, 0x037B), (0x03FE, 0x037C), (0x03FF, 0x037D)]
     else if r = 0x1F0 then
       [(0x1F08, 0x1F00), (0x1F09, 0x1F01), (0x1F0A, 0x1F02), (0x1F0B, 0x1F03),
        (0x1F0C, 0x1F04), (0x1F0D, 0x1F05), (0x1F0E, 0x1F06), (0x1F0F, 0x1F07)]
     else if r = 0x1F1 then
       [(0x1F18, 0x1F10), (0x1F19, 0x1F11), (0x1F1A, 0x1F12), (0x1F1B, 0x1F13),
        (0x1F1C, 0x1F14), (0x1F1D, 0x1F15)]
     else if r = 0x1F2 then
       [(0x1F28, 0x1F20), (0x1F29, 0x1F21), (0x1F2A, 0x1F22), (0x1F2B, 0x1F23),
        (0x1F2C, 0x1F24), (0x1F2D, 0x1F25), (0x1F2E, 0x1F26), (0x1F2F, 0x1F27)]
     else if r = 0x1F3 then
       [(0x1F38, 0x1F30), (0x1F39, 0x1F31), (0x1F3A, 0x1F32), (0x1F3B, 0x1F33),
        (0x1F3C, 0x1F34), (0x1F3D, 0x1F35), (0x1F3E, 0x1F36), (0x1F3F, 0x1F37)]
     else if r = 0x1F4 then
       [(0x1F48, 0x1F40), (0x1F49, 0x1F41), (0x1F4A, 0x1F42), (0x1F4B, 0x1F43),
        (0x1F4C, 0x1F44), (0x1F4D, 0x1F45)]
     else if r = 0x1F5 then
       [(0x1F59, 0x1F51), (0x1F5B, 0x1F53), (0x1F5D, 0x1F55), (0x1F5F, 0x1F57)]
     else if r = 0x1F6 then
       [(0x1F68, 0x1F60), (0x1F69, 0x1F61), (0x1F6A, 0x1F62), (0x1F6B, 0x1F63),
        (0x1F6C, 0x1F64), (0x1F6D, 0x1F65), (0x1F6E, 0x1F66), (0x1F6F, 0x1F67)]
     else if r = 0x1F8 then
       [(0x1F88, 0x1F80), (0x1F89, 0x1F81), (0x1F8A, 0x1F82), (0x1F8B, 0x1F83),
        (0x1F8C, 0x1F84), (0x1F8D, 0x1F85), (0x1F8E, 0x1F86), (0x1F8F, 0x1F87)]
     else if r = 0x1F9 then
       [(0x1F98, 0x1F90), (0x1F99, 0x1F91), (0x1F9A, 0x1F92), (0x1F9B, 0x1F93),
        (0x1F9C, 0x1F94), (0x1F9D, 0x1F95), (0x1F9E, 0x1F96), (0x1F9F, 0x1F97)]
     else if r = 0x1FA then
       [(0x1FA8, 0x1FA0), (0x1FA9, 0x1FA1), (0x1FAA, 0x1FA2), (0x1FAB, 0x1FA3),
        (0x1FAC, 0x1FA4), (0x1FAD, 0x1FA5), (0x1FAE, 0x1FA6), (0x1FAF, 0x1FA7)]
     else if r = 0x1FB then
       [(0x1FB8, 0x1FB0), (0x1FB9, 0x1FB1), (0x1FBA, 0x1F70), (0x1FBB, 0x1F71),
        (0x1FBC, 0x1FB3)]
     else if r = 0x1FC then
       [(0x1FC8, 0x1F72), (0x1FC9, 0x1F73), (0x1FCA, 0x1F74), (0x1FCB, 0x1F75),
        (0x1FCC, 0x1FC3)]
     else if r = 0x1FD then
       [(0x1FD8, 0x1FD0), (0x1FD9, 0x1FD1), (0x1FDA, 0x1F76), (0x1FDB, 0x1F77)]
     else if r = 0x1FE then
       [(0x1FE8, 0x1FE0), (0x1FE9, 0x1FE1), (0x1FEA, 0x1F7A), (0x1FEB, 0x1F7B),
        (0x1FEC, 0x1FE5)]
     else if r = 0x1FF then
       [(0x1FF8, 0x1F78), (0x1FF9, 0x1F79), (0x1FFA, 0x1F7C), (0x1FFB, 0x1F7D),
        (0x1FFC, 0x1FF3)]
     else if r = 0x212 then
       [(0x212A, 0x006B)]
     else [])"

definition lowerCP :: "nat \<Rightarrow> nat" where
  "lowerCP c = (case map_of (lowerRow (c div 16)) c of Some d \<Rightarrow> d | None \<Rightarrow> c)"

text \<open>
  The one context-sensitive rule of the language-independent conversion (SpecialCasing,
  \<open>Final_Sigma\<close>): a capital sigma becomes the final form U+03C2 when a cased letter
  precedes it, case-ignorable characters skipped, and no cased letter follows it,
  case-ignorable characters skipped. \<open>casedRanges\<close> lists the cased characters of the
  repertoire that are not case-ignorable, \<open>caseIgnorableRanges\<close> the case-ignorable ones.
\<close>

definition casedRanges :: "(nat \<times> nat) list" where
  "casedRanges = [
    (0x0041, 0x005A), (0x0061, 0x007A), (0x0370, 0x0373), (0x0376, 0x0377), (0x037B, 0x037D),
    (0x037F, 0x037F), (0x0386, 0x0386), (0x0388, 0x038A), (0x038C, 0x038C), (0x038E, 0x03A1),
    (0x03A3, 0x03F5), (0x03F7, 0x03FF), (0x1F00, 0x1F15), (0x1F18, 0x1F1D), (0x1F20, 0x1F45),
    (0x1F48, 0x1F4D), (0x1F50, 0x1F57), (0x1F59, 0x1F59), (0x1F5B, 0x1F5B), (0x1F5D, 0x1F5D),
    (0x1F5F, 0x1F7D), (0x1F80, 0x1FB4), (0x1FB6, 0x1FBC), (0x1FBE, 0x1FBE), (0x1FC2, 0x1FC4),
    (0x1FC6, 0x1FCC), (0x1FD0, 0x1FD3), (0x1FD6, 0x1FDB), (0x1FE0, 0x1FEC), (0x1FF2, 0x1FF4),
    (0x1FF6, 0x1FFC), (0x212A, 0x212A)]"

definition caseIgnorableRanges :: "(nat \<times> nat) list" where
  "caseIgnorableRanges = [
    (0x0027, 0x0027), (0x002E, 0x002E), (0x003A, 0x003A), (0x005E, 0x005E), (0x0060, 0x0060),
    (0x00A8, 0x00A8), (0x00B4, 0x00B4), (0x00B7, 0x00B7), (0x02B9, 0x02B9), (0x0300, 0x036F),
    (0x0374, 0x0375), (0x037A, 0x037A), (0x0384, 0x0385), (0x0387, 0x0387), (0x0483, 0x0483),
    (0x0591, 0x0591), (0x1FBD, 0x1FBD), (0x1FBF, 0x1FC1), (0x1FCD, 0x1FCF), (0x1FDD, 0x1FDF),
    (0x1FED, 0x1FEF), (0x1FFD, 0x1FFE)]"

definition cased :: "nat \<Rightarrow> bool" where
  "cased c = inRanges casedRanges c"

definition caseIgnorable :: "nat \<Rightarrow> bool" where
  "caseIgnorable c = inRanges caseIgnorableRanges c"

text \<open>\<open>prev\<close> is the text that precedes the sigma, nearest character first.\<close>

definition finalSigma :: "jsstring \<Rightarrow> jsstring \<Rightarrow> bool" where
  "finalSigma prev after =
     ((case dropWhile caseIgnorable prev of [] \<Rightarrow> False | c # _ \<Rightarrow> cased c) \<and>
      (case dropWhile caseIgnorable after of [] \<Rightarrow> True | c # _ \<Rightarrow> \<not> cased c))"

fun lowerFrom :: "jsstring \<Rightarrow> jsstring \<Rightarrow> jsstring" where
  "lowerFrom prev [] = []"
| "lowerFrom prev (c # cs) =
     (if c = 0x3A3 then (if finalSigma prev cs then 0x3C2 else 0x3C3) else lowerCP c)
       # lowerFrom (c # prev) cs"

definition toLowerCase :: "jsstring \<Rightarrow> jsstring" where
  "toLowerCase s = lowerFrom [] s"

section \<open>Reference parsing (\<^verbatim>\<open>scripts/import.ts\<close>)\<close>

subsection \<open>The regular expression\<close>

text \<open>
  \<^verbatim>\<open>/^([A-Za-z0-9]+)\.(\d+)\.(\d+)(?:\{(\d+)\.(\d+)\})?(?:\[(\d+)\.(\d+)\])?#(\d+)=(.+)$/\<close>
  The expression has no flags: \<^verbatim>\<open>\d\<close> is an ASCII digit, \<^verbatim>\<open>.\<close> is any character
  but a line terminator, and \<^verbatim>\<open>$\<close> is the end of the input. Every repetition is followed
  by a literal outside its class, and each optional group starts with a literal that
  nothing else can match, so the greedy match is the only one.
\<close>

definition isDigit :: "nat \<Rightarrow> bool" where
  "isDigit c = (0x30 \<le> c \<and> c \<le> 0x39)"

definition isAlnum :: "nat \<Rightarrow> bool" where
  "isAlnum c = ((0x41 \<le> c \<and> c \<le> 0x5A) \<or> (0x61 \<le> c \<and> c \<le> 0x7A) \<or> isDigit c)"

definition isLineTerminator :: "nat \<Rightarrow> bool" where
  "isLineTerminator c = (c = 0x0A \<or> c = 0x0D \<or> c = 0x2028 \<or> c = 0x2029)"

text \<open>\<open>many1 p s\<close>: one or more characters of class \<open>p\<close>, as many as there are.\<close>

definition many1 :: "(nat \<Rightarrow> bool) \<Rightarrow> jsstring \<Rightarrow> (jsstring \<times> jsstring) option" where
  "many1 p s = (if takeWhile p s = [] then None else Some (takeWhile p s, dropWhile p s))"

text \<open>\<open>lit c s\<close>: the literal character \<open>c\<close>.\<close>

definition lit :: "nat \<Rightarrow> jsstring \<Rightarrow> jsstring option" where
  "lit c s = (case s of [] \<Rightarrow> None | x # xs \<Rightarrow> if x = c then Some xs else None)"

text \<open>\<^verbatim>\<open>l(\d+)\.(\d+)r\<close> for the delimiters \<open>l\<close> and \<open>r\<close>.\<close>

definition pairIn :: "nat \<Rightarrow> nat \<Rightarrow> jsstring \<Rightarrow> ((jsstring \<times> jsstring) \<times> jsstring) option" where
  "pairIn l r s = do {
     s1 \<leftarrow> lit l s;
     (a, s2) \<leftarrow> many1 isDigit s1;
     s3 \<leftarrow> lit 0x2E s2;
     (b, s4) \<leftarrow> many1 isDigit s3;
     s5 \<leftarrow> lit r s4;
     Some ((a, b), s5)
   }"

text \<open>
  An optional group \<^verbatim>\<open>(?: ... )?\<close>: its two captures are \<open>undefined\<close> (\<open>None\<close>) when the
  group does not take part in the match.
\<close>

definition optPair :: "nat \<Rightarrow> nat \<Rightarrow> jsstring \<Rightarrow> (jsstring option \<times> jsstring option) \<times> jsstring" where
  "optPair l r s =
     (case pairIn l r s of
        Some ((a, b), rest) \<Rightarrow> ((Some a, Some b), rest)
      | None \<Rightarrow> ((None, None), s))"

text \<open>
  \<^verbatim>\<open>ref.match(...)\<close>: the nine captures \<open>book, ch, vs, altCh, altVs, kjvCh, kjvVs, wordNum,
  type\<close>, or \<open>None\<close> for \<open>null\<close>.
\<close>

type_synonym captures =
  "jsstring \<times> jsstring \<times> jsstring \<times> jsstring option \<times> jsstring option \<times>
   jsstring option \<times> jsstring option \<times> jsstring \<times> jsstring"

definition matchRef :: "jsstring \<Rightarrow> captures option" where
  "matchRef ref = do {
     (bk, s1) \<leftarrow> many1 isAlnum ref;
     s2 \<leftarrow> lit 0x2E s1;
     (ch, s3) \<leftarrow> many1 isDigit s2;
     s4 \<leftarrow> lit 0x2E s3;
     (vs, s5) \<leftarrow> many1 isDigit s4;
     ((altCh, altVs), s6) \<leftarrow> Some (optPair 0x7B 0x7D s5);
     ((kjvCh, kjvVs), s7) \<leftarrow> Some (optPair 0x5B 0x5D s6);
     s8 \<leftarrow> lit 0x23 s7;
     (wn, s9) \<leftarrow> many1 isDigit s8;
     ty \<leftarrow> lit 0x3D s9;
     if ty \<noteq> [] \<and> \<not> list_ex isLineTerminator ty
     then Some (bk, ch, vs, altCh, altVs, kjvCh, kjvVs, wn, ty)
     else None
   }"

subsection \<open>\<open>parseReference\<close> and \<open>isTrWord\<close>\<close>

text \<open>
  \<^verbatim>\<open>parseInt(s, 10)\<close>, which the source applies to captures of \<^verbatim>\<open>\d+\<close> only. The
  digits \<open>s\<close> starts with denote an integer, \<open>digitsValue s\<close>, and the result is the number
  of the language for it: the nearest double, ties to the even significand, and \<open>Infinity\<close>
  from \<open>2^1024\<close> on. Such a number is a natural number or \<open>\<infinity>\<close>. Up to \<open>2^53\<close> the
  integer is returned as it is; above, \<open>bitLength n - 53\<close> low bits are rounded away. (The
  language lets an implementation read the digits after the twentieth significant one as
  zeros; the first digit other than \<open>0\<close> is always read.)
\<close>

definition digitsValue :: "jsstring \<Rightarrow> nat" where
  "digitsValue s = foldl (\<lambda>acc c. 10 * acc + (c - 0x30)) 0 (takeWhile isDigit s)"

function bitLength :: "nat \<Rightarrow> nat" where
  "bitLength n = (if n = 0 then 0 else Suc (bitLength (n div 2)))"
  by pat_completeness auto
termination
  by (relation "measure (\<lambda>n. n)") auto

declare bitLength.simps [simp del]

definition toDouble :: "nat \<Rightarrow> enat" where
  "toDouble n =
     (if n < 2 ^ 53 then enat n
      else
        let e = bitLength n - 53;
            q = n div 2 ^ e;
            r = n mod 2 ^ e;
            m = (if 2 ^ e < 2 * r \<or> (2 * r = 2 ^ e \<and> odd q) then q + 1 else q)
        in if m * 2 ^ e < 2 ^ 1024 then enat (m * 2 ^ e) else \<infinity>)"

definition parseInt10 :: "jsstring \<Rightarrow> enat" where
  "parseInt10 s = toDouble (digitsValue s)"

text \<open>Truthiness of a capture: \<open>undefined\<close> and the empty string are falsy.\<close>

fun truthy :: "jsstring option \<Rightarrow> bool" where
  "truthy None = False"
| "truthy (Some s) = (s \<noteq> [])"

fun captured :: "jsstring option \<Rightarrow> jsstring" where
  "captured None = []"
| "captured (Some s) = s"

record parsedRef =
  book :: jsstring
  "chapter" :: enat
  verse :: enat
  wordNum :: enat
  type :: jsstring

definition parseReference :: "jsstring \<Rightarrow> parsedRef option" where
  "parseReference ref =
     (case matchRef ref of
        None \<Rightarrow> None
      | Some (bk, ch, vs, altCh, altVs, kjvCh, kjvVs, wn, ty) \<Rightarrow>
          let chapter0 = parseInt10 ch;
              verse0 = parseInt10 vs;
              (chapter1, verse1) =
                (if jsIncludes ty (js ''K'') \<or> jsIncludes (toLowerCase ty) (js ''k'') then
                   (if truthy altCh \<and> truthy altVs then
                      (parseInt10 (captured altCh), parseInt10 (captured altVs))
                    else if truthy kjvCh \<and> truthy kjvVs then
                      (parseInt10 (captured kjvCh), parseInt10 (captured kjvVs))
                    else (chapter0, verse0))
                 else (chapter0, verse0))
          in Some \<lparr>book = bk, chapter = chapter1, verse = verse1,
                    wordNum = parseInt10 wn, type = ty\<rparr>)"

definition isTrWord :: "jsstring \<Rightarrow> bool" where
  "isTrWord ty = (jsIncludes ty (js ''K'') \<or> jsIncludes ty (js ''k''))"

subsection \<open>The family-membership predicate\<close>

lemma jsIncludes_single: "jsIncludes s [c] \<longleftrightarrow> c \<in> set s"
  by (induction s) auto

lemma js_K: "js ''K'' = [0x4B]"
  by (simp add: js_def)

lemma js_k: "js ''k'' = [0x6B]"
  by (simp add: js_def)

lemma isTrWord_iff: "isTrWord ty \<longleftrightarrow> 0x4B \<in> set ty \<or> 0x6B \<in> set ty"
  by (simp add: isTrWord_def js_K js_k jsIncludes_single)

text \<open>
  C2. \<open>isTrWord\<close> holds exactly when the flags contain \<open>K\<close> (U+004B) or \<open>k\<close> (U+006B).
  Removing the parentheses does not change it, inserting or removing any other character
  does not change it, and it has the listed values on the listed flag strings.
\<close>

theorem isTrWord_letter_K:
  "(isTrWord ty \<longleftrightarrow> 0x4B \<in> set ty \<or> 0x6B \<in> set ty) \<and>
   isTrWord (filter (\<lambda>c. c \<noteq> 0x28 \<and> c \<noteq> 0x29) ty) = isTrWord ty \<and>
   (\<forall>c. c \<noteq> 0x4B \<and> c \<noteq> 0x6B \<longrightarrow> isTrWord (xs @ c # ys) = isTrWord (xs @ ys)) \<and>
   list_all isTrWord (map js [''K'', ''NK'', ''KO'', ''K(O)'', ''N(K)(O)'', ''nKo'', ''(k)'']) \<and>
   list_all (\<lambda>t. \<not> isTrWord t) (map js [''NO'', ''N'', ''O'', ''N(O)''])"
proof -
  have yes: "list_all isTrWord (map js [''K'', ''NK'', ''KO'', ''K(O)'', ''N(K)(O)'', ''nKo'', ''(k)''])"
    by (simp add: isTrWord_iff js_def)
  have no: "list_all (\<lambda>t. \<not> isTrWord t) (map js [''NO'', ''N'', ''O'', ''N(O)''])"
    by (simp add: isTrWord_iff js_def)
  have parens: "isTrWord (filter (\<lambda>c. c \<noteq> 0x28 \<and> c \<noteq> 0x29) ty) = isTrWord ty"
    by (auto simp: isTrWord_iff)
  have others: "\<forall>c. c \<noteq> 0x4B \<and> c \<noteq> 0x6B \<longrightarrow> isTrWord (xs @ c # ys) = isTrWord (xs @ ys)"
    by (auto simp: isTrWord_iff)
  show ?thesis using yes no parens others isTrWord_iff by blast
qed

theorem isTrWord_letter_K_witness:
  "isTrWord (js ''N(K)(O)'') \<and> isTrWord (js ''NK'') \<and> \<not> isTrWord (js ''N(O)'') \<and>
   isTrWord (js ''N'' @ 0x4F # js ''K'') = isTrWord (js ''N'' @ js ''K'')"
  using isTrWord_letter_K [of "js ''N(K)(O)''" "js ''N''" "js ''K''"]
  by (simp add: js_def)

subsection \<open>The reference grammar, as the specification words it\<close>

text \<open>
  \<^verbatim>\<open>Book.Chapter.Verse{AltChapter.AltVerse}?[KjvChapter.KjvVerse]?#WordNum=VariantFlags\<close>:
  a token is assembled from its parts; the brace pair and the bracket pair are optional and
  independent. \<open>wfToken\<close> says what the parts are: a non-empty alphanumeric book code,
  non-empty digit strings, and non-empty flags without a line terminator.
\<close>

definition digits :: "jsstring \<Rightarrow> bool" where
  "digits s = (s \<noteq> [] \<and> list_all isDigit s)"

definition mkPair :: "nat \<Rightarrow> nat \<Rightarrow> (jsstring \<times> jsstring) option \<Rightarrow> jsstring" where
  "mkPair l r p = (case p of None \<Rightarrow> [] | Some (a, b) \<Rightarrow> l # a @ 0x2E # b @ [r])"

definition mkToken ::
  "jsstring \<Rightarrow> jsstring \<Rightarrow> jsstring \<Rightarrow> (jsstring \<times> jsstring) option \<Rightarrow>
   (jsstring \<times> jsstring) option \<Rightarrow> jsstring \<Rightarrow> jsstring \<Rightarrow> jsstring" where
  "mkToken bk ch vs alt kjv wn ty =
     bk @ 0x2E # ch @ 0x2E # vs @ mkPair 0x7B 0x7D alt @ mkPair 0x5B 0x5D kjv @ 0x23 # wn @ 0x3D # ty"

definition wfPair :: "(jsstring \<times> jsstring) option \<Rightarrow> bool" where
  "wfPair p = (case p of None \<Rightarrow> True | Some (a, b) \<Rightarrow> digits a \<and> digits b)"

definition wfToken ::
  "jsstring \<Rightarrow> jsstring \<Rightarrow> jsstring \<Rightarrow> (jsstring \<times> jsstring) option \<Rightarrow>
   (jsstring \<times> jsstring) option \<Rightarrow> jsstring \<Rightarrow> jsstring \<Rightarrow> bool" where
  "wfToken bk ch vs alt kjv wn ty =
     (bk \<noteq> [] \<and> list_all isAlnum bk \<and> digits ch \<and> digits vs \<and> wfPair alt \<and> wfPair kjv \<and>
      digits wn \<and> ty \<noteq> [] \<and> \<not> list_ex isLineTerminator ty)"

text \<open>
  The versification rule of the specification: for a member of the family (the flags
  contain \<open>K\<close> or \<open>k\<close>) the brace pair when there is one, else the bracket pair when there
  is one; the primary pair otherwise. The result is the pair of digit strings to read.
\<close>

definition resolvedPair ::
  "jsstring \<Rightarrow> jsstring \<Rightarrow> (jsstring \<times> jsstring) option \<Rightarrow> (jsstring \<times> jsstring) option \<Rightarrow>
   jsstring \<Rightarrow> jsstring \<times> jsstring" where
  "resolvedPair ch vs alt kjv ty =
     (if 0x4B \<in> set ty \<or> 0x6B \<in> set ty then
        (case alt of Some p \<Rightarrow> p | None \<Rightarrow> (case kjv of Some p \<Rightarrow> p | None \<Rightarrow> (ch, vs)))
      else (ch, vs))"

subsection \<open>The matcher against the grammar\<close>

lemma many1_app:
  assumes "xs \<noteq> []" "list_all p xs" "\<not> p c"
  shows "many1 p (xs @ c # rest) = Some (xs, c # rest)"
proof -
  have all: "\<forall>x\<in>set xs. p x" using assms(2) by (simp add: list_all_iff)
  have t: "takeWhile p (xs @ c # rest) = xs"
    using all assms(3) by (simp add: takeWhile_tail)
  have d: "dropWhile p (xs @ c # rest) = c # rest"
    using all assms(3) by (simp add: dropWhile_append3)
  show ?thesis using assms(1) t d by (simp add: many1_def)
qed

lemma many1_digits: "digits a \<Longrightarrow> \<not> isDigit c \<Longrightarrow> many1 isDigit (a @ c # rest) = Some (a, c # rest)"
  by (simp add: digits_def many1_app)

lemma many1_D:
  assumes "many1 p s = Some (a, rest)"
  shows "s = a @ rest \<and> a \<noteq> [] \<and> list_all p a"
proof -
  have a: "a = takeWhile p s" and r: "rest = dropWhile p s" and ne: "takeWhile p s \<noteq> []"
    using assms by (auto simp: many1_def split: if_splits)
  have "list_all p a" unfolding a by (auto simp: list_all_iff dest: set_takeWhileD)
  then show ?thesis using a r ne by simp
qed

lemma lit_Cons [simp]: "lit c (x # xs) = (if x = c then Some xs else None)"
  by (simp add: lit_def)

lemma lit_Nil [simp]: "lit c [] = None"
  by (simp add: lit_def)

lemma lit_D: "lit c s = Some rest \<Longrightarrow> s = c # rest"
  by (cases s) (auto split: if_splits)

lemma notDigit_lits [simp]:
  "\<not> isDigit 0x2E" "\<not> isDigit 0x7B" "\<not> isDigit 0x7D" "\<not> isDigit 0x5B" "\<not> isDigit 0x5D"
  "\<not> isDigit 0x23" "\<not> isDigit 0x3D" "\<not> isAlnum 0x2E"
  by (simp_all add: isDigit_def isAlnum_def)

lemma pairIn_present:
  assumes "digits a" "digits b" "\<not> isDigit r"
  shows "pairIn l r (l # a @ 0x2E # b @ r # rest) = Some ((a, b), rest)"
  using assms by (simp add: pairIn_def many1_digits)

lemma pairIn_absent: "c \<noteq> l \<Longrightarrow> pairIn l r (c # rest) = None"
  by (simp add: pairIn_def)

lemma pairIn_D:
  assumes "pairIn l r s = Some ((a, b), rest)"
  shows "s = l # a @ 0x2E # b @ r # rest \<and> digits a \<and> digits b"
proof -
  from assms obtain s1 s2 s3 s4 where
    1: "lit l s = Some s1" and 2: "many1 isDigit s1 = Some (a, s2)" and 3: "lit 0x2E s2 = Some s3"
    and 4: "many1 isDigit s3 = Some (b, s4)" and 5: "lit r s4 = Some rest"
    by (auto simp: pairIn_def split: bind_splits)
  show ?thesis
    using lit_D[OF 1] many1_D[OF 2] lit_D[OF 3] many1_D[OF 4] lit_D[OF 5]
    by (simp add: digits_def)
qed


lemma mkPair_None [simp]: "mkPair l r None = []"
  by (simp add: mkPair_def)

lemma mkPair_Some [simp]: "mkPair l r (Some (a, b)) = l # a @ 0x2E # b @ [r]"
  by (simp add: mkPair_def)

lemma optPair_present:
  "digits a \<Longrightarrow> digits b \<Longrightarrow> \<not> isDigit r \<Longrightarrow>
   optPair l r (mkPair l r (Some (a, b)) @ rest) = ((Some a, Some b), rest)"
  using pairIn_present [of a b r l rest] by (simp add: optPair_def)

lemma optPair_absent: "c \<noteq> l \<Longrightarrow> optPair l r (c # rest) = ((None, None), c # rest)"
  by (simp add: optPair_def pairIn_absent)

lemma optPair_mkPair:
  assumes "wfPair p" "\<not> isDigit r" "c \<noteq> l"
  shows "optPair l r (mkPair l r p @ c # rest) = ((map_option fst p, map_option snd p), c # rest)"
proof (cases p)
  case None
  then show ?thesis using assms(3) by (simp add: optPair_absent)
next
  case (Some ab)
  obtain a b where ab: "ab = (a, b)" by (cases ab)
  have "digits a" "digits b" using assms(1) Some ab by (simp_all add: wfPair_def)
  then show ?thesis
    using optPair_present [of a b r l "c # rest"] assms(2) Some ab by simp
qed

lemma matchRef_mkToken:
  assumes "wfToken bk ch vs alt kjv wn ty"
  shows "matchRef (mkToken bk ch vs alt kjv wn ty) =
           Some (bk, ch, vs, map_option fst alt, map_option snd alt,
                 map_option fst kjv, map_option snd kjv, wn, ty)"
proof -
  have bk: "bk \<noteq> []" "list_all isAlnum bk" and ch: "digits ch" and vs: "digits vs"
    and alt: "wfPair alt" and kjv: "wfPair kjv" and wn: "digits wn"
    and ty: "ty \<noteq> []" "\<not> list_ex isLineTerminator ty"
    using assms by (simp_all add: wfToken_def)
  let ?s7 = "0x23 # wn @ 0x3D # ty"
  let ?s6 = "mkPair 0x5B 0x5D kjv @ ?s7"
  let ?s5 = "mkPair 0x7B 0x7D alt @ ?s6"
  have 1: "many1 isAlnum (bk @ 0x2E # ch @ 0x2E # vs @ ?s5) = Some (bk, 0x2E # ch @ 0x2E # vs @ ?s5)"
    using bk by (simp add: many1_app)
  have 2: "many1 isDigit (ch @ 0x2E # vs @ ?s5) = Some (ch, 0x2E # vs @ ?s5)"
    using ch by (simp add: many1_digits)
  have kjv': "optPair 0x5B 0x5D ?s6 = ((map_option fst kjv, map_option snd kjv), ?s7)"
    using optPair_mkPair [OF kjv, of "0x5D" "0x23" "0x5B"] by simp
  have hd6: "\<exists>c rest. ?s6 = c # rest \<and> c \<noteq> 0x7B \<and> \<not> isDigit c"
    by (cases kjv) auto
  then obtain c6 r6 where s6: "?s6 = c6 # r6" and c6: "c6 \<noteq> 0x7B" "\<not> isDigit c6"
    by blast
  have alt': "optPair 0x7B 0x7D ?s5 = ((map_option fst alt, map_option snd alt), ?s6)"
    using optPair_mkPair [OF alt, of "0x7D" c6 "0x7B" r6] c6 s6 by simp
  have hd5: "\<exists>c rest. ?s5 = c # rest \<and> \<not> isDigit c"
    using s6 c6 by (cases alt) auto
  then obtain c5 r5 where s5: "?s5 = c5 # r5" and c5: "\<not> isDigit c5"
    by blast
  have 3: "many1 isDigit (vs @ ?s5) = Some (vs, ?s5)"
    using many1_digits [OF vs c5, of r5] s5 by simp
  have 4: "many1 isDigit (wn @ 0x3D # ty) = Some (wn, 0x3D # ty)"
    using wn by (simp add: many1_digits)
  show ?thesis
    unfolding matchRef_def mkToken_def
    using 1 2 3 alt' kjv' 4 ty by simp
qed


lemma optPair_D:
  assumes "optPair l r s = ((x, y), rest)"
  shows "\<exists>p. wfPair p \<and> s = mkPair l r p @ rest \<and> x = map_option fst p \<and> y = map_option snd p"
proof (cases "pairIn l r s")
  case None
  with assms have "x = None" "y = None" "rest = s" by (simp_all add: optPair_def)
  then show ?thesis by (intro exI [of _ None]) (simp add: wfPair_def)
next
  case (Some q)
  obtain a b rest' where q: "q = ((a, b), rest')" by (cases q) auto
  with Some assms have xy: "x = Some a" "y = Some b" "rest = rest'" by (simp_all add: optPair_def)
  from pairIn_D [of l r s a b rest'] Some q
  have "s = l # a @ 0x2E # b @ r # rest'" "digits a" "digits b" by simp_all
  then show ?thesis using xy by (intro exI [of _ "Some (a, b)"]) (simp add: wfPair_def)
qed

lemma matchRef_D:
  assumes "matchRef ref = Some (bk, ch, vs, altCh, altVs, kjvCh, kjvVs, wn, ty)"
  shows "\<exists>alt kjv. wfToken bk ch vs alt kjv wn ty \<and> ref = mkToken bk ch vs alt kjv wn ty \<and>
           altCh = map_option fst alt \<and> altVs = map_option snd alt \<and>
           kjvCh = map_option fst kjv \<and> kjvVs = map_option snd kjv"
proof -
  from assms obtain s1 s2 s3 s4 s5 s6 s7 s8 s9 where
    1: "many1 isAlnum ref = Some (bk, s1)" and 2: "lit 0x2E s1 = Some s2"
    and 3: "many1 isDigit s2 = Some (ch, s3)" and 4: "lit 0x2E s3 = Some s4"
    and 5: "many1 isDigit s4 = Some (vs, s5)"
    and 6: "optPair 0x7B 0x7D s5 = ((altCh, altVs), s6)"
    and 7: "optPair 0x5B 0x5D s6 = ((kjvCh, kjvVs), s7)"
    and 8: "lit 0x23 s7 = Some s8" and 9: "many1 isDigit s8 = Some (wn, s9)"
    and 10: "lit 0x3D s9 = Some ty" and 11: "ty \<noteq> []" "\<not> list_ex isLineTerminator ty"
    by (auto simp: matchRef_def split: bind_splits if_splits prod.splits)
  from optPair_D [OF 6] obtain alt where
    alt: "wfPair alt" "s5 = mkPair 0x7B 0x7D alt @ s6" "altCh = map_option fst alt" "altVs = map_option snd alt"
    by blast
  from optPair_D [OF 7] obtain kjv where
    kjv: "wfPair kjv" "s6 = mkPair 0x5B 0x5D kjv @ s7" "kjvCh = map_option fst kjv" "kjvVs = map_option snd kjv"
    by blast
  have wf: "wfToken bk ch vs alt kjv wn ty"
    using many1_D [OF 1] many1_D [OF 3] many1_D [OF 5] many1_D [OF 9] alt(1) kjv(1) 11
    by (simp add: wfToken_def digits_def)
  have eq: "ref = mkToken bk ch vs alt kjv wn ty"
    using many1_D [OF 1] lit_D [OF 2] many1_D [OF 3] lit_D [OF 4] many1_D [OF 5] alt(2) kjv(2)
      lit_D [OF 8] many1_D [OF 9] lit_D [OF 10]
    by (simp add: mkToken_def)
  show ?thesis using wf eq alt(3,4) kjv(3,4) by blast
qed

lemma digitsValue_digits:
  "list_all isDigit s \<Longrightarrow> digitsValue s = foldl (\<lambda>acc c. 10 * acc + (c - 0x30)) 0 s"
  by (simp add: digitsValue_def list_all_iff takeWhile_eq_all_conv [THEN iffD2])

lemma foldl_digits_pos:
  "list_all isDigit s \<Longrightarrow>
   1 \<le> foldl (\<lambda>acc c. 10 * acc + (c - 0x30)) a s \<longleftrightarrow> 1 \<le> a \<or> (\<exists>d\<in>set s. d \<noteq> 0x30)"
proof (induction s arbitrary: a)
  case Nil
  then show ?case by simp
next
  case (Cons c s)
  have c: "0x30 \<le> c" using Cons.prems by (simp add: isDigit_def)
  have "1 \<le> 10 * a + (c - 0x30) \<longleftrightarrow> 1 \<le> a \<or> c \<noteq> 0x30" using c by auto
  then show ?case using Cons by auto
qed

lemma digitsValue_pos:
  assumes "digits s"
  shows "1 \<le> digitsValue s \<longleftrightarrow> (\<exists>d\<in>set s. d \<noteq> 0x30)"
proof -
  have d: "list_all isDigit s" using assms by (simp add: digits_def)
  show ?thesis
    using foldl_digits_pos [OF d, of 0] by (simp add: digitsValue_digits [OF d])
qed

lemma bitLength_bound: "0 < n \<Longrightarrow> 2 ^ (bitLength n - 1) \<le> n"
proof (induction n rule: bitLength.induct)
  case (1 n)
  show ?case
  proof (cases "n div 2 = 0")
    case True
    then have "bitLength (n div 2) = 0" by (simp add: bitLength.simps [of 0])
    then have "bitLength n = 1" using 1(2) by (simp add: bitLength.simps [of n])
    then show ?thesis using 1(2) by simp
  next
    case False
    then have IH: "2 ^ (bitLength (n div 2) - 1) \<le> n div 2" using 1 by simp
    have pos: "0 < bitLength (n div 2)" using False by (simp add: bitLength.simps [of "n div 2"])
    have "bitLength n - 1 = Suc (bitLength (n div 2) - 1)"
      using 1(2) pos by (simp add: bitLength.simps [of n])
    then have "(2::nat) ^ (bitLength n - 1) = 2 * 2 ^ (bitLength (n div 2) - 1)" by simp
    also have "\<dots> \<le> 2 * (n div 2)" using IH by simp
    also have "\<dots> \<le> n" by simp
    finally show ?thesis .
  qed
qed

text \<open>Rounding to a double keeps \<open>0\<close> and keeps every positive integer at least \<open>1\<close>.\<close>

lemma toDouble_pos: "1 \<le> toDouble n \<longleftrightarrow> 1 \<le> n"
proof (cases "n < 2 ^ 53")
  case True
  then show ?thesis by (simp add: toDouble_def one_enat_def)
next
  case False
  then have n: "0 < n" by (cases "n = 0") simp_all
  define e where "e = bitLength n - 53"
  define q where "q = n div 2 ^ e"
  define m where "m = (if 2 ^ e < 2 * (n mod 2 ^ e) \<or> (2 * (n mod 2 ^ e) = 2 ^ e \<and> odd q) then q + 1 else q)"
  have "(2::nat) ^ e \<le> 2 ^ (bitLength n - 1)" unfolding e_def by (rule power_increasing) simp_all
  also have "\<dots> \<le> n" using n by (rule bitLength_bound)
  finally have "2 ^ e \<le> n" .
  then have "1 \<le> q" unfolding q_def by (simp add: div_greater_zero_iff Suc_le_eq)
  then have "1 \<le> m" unfolding m_def by simp
  then have "1 \<le> m * 2 ^ e" by (simp add: Suc_le_eq)
  then have "1 \<le> (if m * 2 ^ e < 2 ^ 1024 then enat (m * 2 ^ e) else \<infinity>)"
    by (simp add: one_enat_def)
  moreover have "toDouble n = (if m * 2 ^ e < 2 ^ 1024 then enat (m * 2 ^ e) else \<infinity>)"
    using False by (simp add: toDouble_def Let_def e_def q_def m_def)
  ultimately show ?thesis using n by simp
qed

lemma parseInt10_pos:
  assumes "digits s"
  shows "1 \<le> parseInt10 s \<longleftrightarrow> (\<exists>d\<in>set s. d \<noteq> 0x30)"
  using digitsValue_pos [OF assms] by (simp add: parseInt10_def toDouble_pos)

lemma toDouble_small: "n < 2 ^ 53 \<Longrightarrow> toDouble n = enat n"
  by (simp add: toDouble_def)

text \<open>Above \<open>2^53\<close> the value of the digits is rounded: \<open>2^53 + 1\<close> reads as \<open>2^53\<close>.\<close>

lemma parseInt10_rounds: "parseInt10 (js ''9007199254740993'') = 9007199254740992"
proof -
  have v: "digitsValue (js ''9007199254740993'') = 9007199254740993"
    by (simp add: digitsValue_def isDigit_def js_def)
  have b: "bitLength 9007199254740993 = 54"
    by (simp add: bitLength.simps)
  have "toDouble 9007199254740993 = enat 9007199254740992"
    by (simp add: toDouble_def b Let_def)
  then show ?thesis by (simp add: parseInt10_def v numeral_eq_enat)
qed

lemma map_of_list_all:
  "list_all (\<lambda>(k, v). P k v) t \<Longrightarrow> map_of t c = Some v \<Longrightarrow> P c v"
  by (auto simp: list_all_iff dest!: map_of_SomeD)

lemma lowerRow_k: "list_all (\<lambda>(k, v). v = 0x6B \<longrightarrow> k = 0x4B \<or> k = 0x212A) (lowerRow r)"
  by (simp add: lowerRow_def)

lemma lowerRow_keys: "list_all (\<lambda>(k, v). k \<noteq> 0x6B) (lowerRow r)"
  by (simp add: lowerRow_def)

lemma lowerCP_K: "lowerCP 0x4B = 0x6B"
  by (simp add: lowerCP_def lowerRow_def)

lemma lowerCP_kelvin: "lowerCP 0x212A = 0x6B"
  by (simp add: lowerCP_def lowerRow_def)

lemma lowerCP_k: "lowerCP c = 0x6B \<longleftrightarrow> c = 0x4B \<or> c = 0x6B \<or> c = 0x212A"
proof (cases "map_of (lowerRow (c div 16)) c")
  case None
  then have "lowerCP c = c" by (simp add: lowerCP_def)
  moreover have "c \<noteq> 0x4B" "c \<noteq> 0x212A"
    using None lowerCP_K lowerCP_kelvin by (auto simp: lowerCP_def)
  ultimately show ?thesis by simp
next
  case (Some v)
  have "v = 0x6B \<longrightarrow> c = 0x4B \<or> c = 0x212A"
    using map_of_list_all [OF lowerRow_k Some] .
  moreover have "c \<noteq> 0x6B"
    using map_of_list_all [OF lowerRow_keys Some] .
  moreover have "lowerCP c = v" using Some by (simp add: lowerCP_def)
  ultimately show ?thesis using lowerCP_K lowerCP_kelvin by auto
qed

lemma lowerFrom_k:
  "0x6B \<in> set (lowerFrom prev s) \<longleftrightarrow> (\<exists>c\<in>set s. c = 0x4B \<or> c = 0x6B \<or> c = 0x212A)"
proof (induction s arbitrary: prev)
  case Nil
  then show ?case by simp
next
  case (Cons c s)
  show ?case
  proof (cases "c = 0x3A3")
    case True
    then show ?thesis using Cons [of "c # prev"] by simp
  next
    case False
    then show ?thesis using Cons [of "c # prev"] lowerCP_k [of c] by auto
  qed
qed

text \<open>The test of \<open>parseReference\<close> accepts the Kelvin sign besides the two letters.\<close>

lemma inline_test:
  "jsIncludes ty (js ''K'') \<or> jsIncludes (toLowerCase ty) (js ''k'') \<longleftrightarrow>
     0x4B \<in> set ty \<or> 0x6B \<in> set ty \<or> 0x212A \<in> set ty"
  by (auto simp: js_K js_k jsIncludes_single toLowerCase_def lowerFrom_k)


lemma truthy_digits: "digits a \<Longrightarrow> truthy (Some a)"
  by (simp add: digits_def)

lemma parseReference_mkToken:
  assumes wf: "wfToken bk ch vs alt kjv wn ty"
  shows "parseReference (mkToken bk ch vs alt kjv wn ty) =
           Some \<lparr>book = bk,
                 chapter = parseInt10 (fst (if 0x212A \<in> set ty then resolvedPair ch vs alt kjv (0x4B # ty)
                                            else resolvedPair ch vs alt kjv ty)),
                 verse = parseInt10 (snd (if 0x212A \<in> set ty then resolvedPair ch vs alt kjv (0x4B # ty)
                                          else resolvedPair ch vs alt kjv ty)),
                 wordNum = parseInt10 wn, type = ty\<rparr>"
proof -
  have alt: "wfPair alt" and kjv: "wfPair kjv" using wf by (simp_all add: wfToken_def)
  have ta: "truthy (map_option fst alt) \<and> truthy (map_option snd alt) \<longleftrightarrow> alt \<noteq> None"
    using alt by (cases alt) (auto simp: wfPair_def digits_def)
  have tk: "truthy (map_option fst kjv) \<and> truthy (map_option snd kjv) \<longleftrightarrow> kjv \<noteq> None"
    using kjv by (cases kjv) (auto simp: wfPair_def digits_def)
  show ?thesis
    unfolding parseReference_def matchRef_mkToken [OF wf]
    using ta tk
    by (cases alt; cases kjv) (auto simp: inline_test resolvedPair_def Let_def)
qed

text \<open>
  The resolution rule on every token of the grammar whose flags do not contain the Kelvin
  sign: the chapter and the verse are read from the pair the rule of the specification
  selects.
\<close>

lemma parseReference_resolution:
  assumes "wfToken bk ch vs alt kjv wn ty" and "0x212A \<notin> set ty"
  shows "parseReference (mkToken bk ch vs alt kjv wn ty) =
           Some \<lparr>book = bk,
                 chapter = parseInt10 (fst (resolvedPair ch vs alt kjv ty)),
                 verse = parseInt10 (snd (resolvedPair ch vs alt kjv ty)),
                 wordNum = parseInt10 wn, type = ty\<rparr>"
  using parseReference_mkToken [OF assms(1)] assms(2) by simp

text \<open>
  C1. The claim holds on every token whose flags do not contain U+212A (lemma
  \<open>parseReference_resolution\<close>). It fails on a token whose only mark of membership is the
  Kelvin sign: the flags contain neither \<open>K\<close> nor \<open>k\<close>, \<open>isTrWord\<close> rejects them and the
  rule of the specification selects the primary pair \<open>7.53\<close>, but \<open>parseReference\<close> lower-cases
  the flags before it looks for \<open>k\<close>, the Kelvin sign lower-cases to \<open>k\<close>, and the brace pair
  \<open>8.1\<close> is returned.
\<close>

theorem parseReference_kelvin_sign:
  "parseReference (js ''Jhn.7.53{8.1}#01='' @ [0x212A]) =
     Some \<lparr>book = js ''Jhn'', chapter = 8, verse = 1, wordNum = 1, type = [0x212A]\<rparr> \<and>
   \<not> isTrWord [0x212A] \<and>
   resolvedPair (js ''7'') (js ''53'') (Some (js ''8'', js ''1'')) None [0x212A] = (js ''7'', js ''53'')"
proof -
  have wf: "wfToken (js ''Jhn'') (js ''7'') (js ''53'') (Some (js ''8'', js ''1'')) None (js ''01'') [0x212A]"
    by (simp add: wfToken_def wfPair_def digits_def isDigit_def isAlnum_def isLineTerminator_def js_def)
  have tok: "js ''Jhn.7.53{8.1}#01='' @ [0x212A] =
               mkToken (js ''Jhn'') (js ''7'') (js ''53'') (Some (js ''8'', js ''1'')) None (js ''01'') [0x212A]"
    by (simp add: mkToken_def js_def)
  have p: "parseInt10 (js ''8'') = 8" "parseInt10 (js ''1'') = 1" "parseInt10 (js ''01'') = 1"
    by (simp_all add: parseInt10_def digitsValue_def toDouble_small isDigit_def js_def numeral_eq_enat
        one_enat_def)
  show ?thesis
    unfolding tok parseReference_mkToken [OF wf]
    by (simp add: resolvedPair_def p isTrWord_iff)
qed

text \<open>
  C5 as stated fails: the digit groups may be written with zeros only, and then the number
  is \<open>0\<close>.
\<close>

theorem parseReference_zero:
  "parseReference (js ''Mat.0.0#0=K'') =
     Some \<lparr>book = js ''Mat'', chapter = 0, verse = 0, wordNum = 0, type = js ''K''\<rparr>"
proof -
  have wf: "wfToken (js ''Mat'') (js ''0'') (js ''0'') None None (js ''0'') (js ''K'')"
    by (simp add: wfToken_def wfPair_def digits_def isDigit_def isAlnum_def isLineTerminator_def js_def)
  have tok: "js ''Mat.0.0#0=K'' = mkToken (js ''Mat'') (js ''0'') (js ''0'') None None (js ''0'') (js ''K'')"
    by (simp add: mkToken_def js_def)
  have p: "parseInt10 (js ''0'') = 0"
    by (simp add: parseInt10_def digitsValue_def toDouble_small isDigit_def js_def zero_enat_def)
  show ?thesis
    unfolding tok parseReference_mkToken [OF wf]
    by (simp add: resolvedPair_def p)
qed

text \<open>
  C5, amended. When \<open>parseReference\<close> succeeds, the token is a token of the grammar, the
  chapter and the verse are the numbers that \<^verbatim>\<open>parseInt\<close> reads from one of the pairs of
  digit strings written in it, the word number is the number it reads from its digit string
  (the nearest double of the digits, \<open>Infinity\<close> for very long ones), and each of the three
  numbers is at least \<open>1\<close> exactly when the digit string it is read from has a digit other
  than \<open>0\<close>.
\<close>

theorem parseReference_numbers:
  assumes "parseReference ref = Some p"
  shows "\<exists>bk ch vs alt kjv wn ty c v.
           wfToken bk ch vs alt kjv wn ty \<and> ref = mkToken bk ch vs alt kjv wn ty \<and>
           ((c, v) = (ch, vs) \<or> alt = Some (c, v) \<or> kjv = Some (c, v)) \<and>
           chapter p = parseInt10 c \<and> verse p = parseInt10 v \<and> wordNum p = parseInt10 wn \<and>
           (1 \<le> chapter p \<longleftrightarrow> (\<exists>d\<in>set c. d \<noteq> 0x30)) \<and>
           (1 \<le> verse p \<longleftrightarrow> (\<exists>d\<in>set v. d \<noteq> 0x30)) \<and>
           (1 \<le> wordNum p \<longleftrightarrow> (\<exists>d\<in>set wn. d \<noteq> 0x30))"
proof -
  from assms obtain bk ch vs altCh altVs kjvCh kjvVs wn ty where
    m: "matchRef ref = Some (bk, ch, vs, altCh, altVs, kjvCh, kjvVs, wn, ty)"
    by (auto simp: parseReference_def split: option.splits)
  from matchRef_D [OF m] obtain alt kjv where
    wf: "wfToken bk ch vs alt kjv wn ty" and eq: "ref = mkToken bk ch vs alt kjv wn ty"
    by blast
  define q where "q = (if 0x212A \<in> set ty then resolvedPair ch vs alt kjv (0x4B # ty)
                       else resolvedPair ch vs alt kjv ty)"
  have p: "p = \<lparr>book = bk, chapter = parseInt10 (fst q), verse = parseInt10 (snd q),
                 wordNum = parseInt10 wn, type = ty\<rparr>"
    using assms parseReference_mkToken [OF wf] unfolding eq q_def by simp
  have sel: "q = (ch, vs) \<or> alt = Some q \<or> kjv = Some q"
    unfolding q_def resolvedPair_def by (auto split: option.splits)
  have dq: "digits (fst q) \<and> digits (snd q)"
    using sel wf by (auto simp: wfToken_def wfPair_def)
  have dw: "digits wn" using wf by (simp add: wfToken_def)
  have "((fst q, snd q) = (ch, vs) \<or> alt = Some (fst q, snd q) \<or> kjv = Some (fst q, snd q)) \<and>
        chapter p = parseInt10 (fst q) \<and> verse p = parseInt10 (snd q) \<and> wordNum p = parseInt10 wn \<and>
        (1 \<le> chapter p \<longleftrightarrow> (\<exists>d\<in>set (fst q). d \<noteq> 0x30)) \<and>
        (1 \<le> verse p \<longleftrightarrow> (\<exists>d\<in>set (snd q). d \<noteq> 0x30)) \<and>
        (1 \<le> wordNum p \<longleftrightarrow> (\<exists>d\<in>set wn. d \<noteq> 0x30))"
    using sel parseInt10_pos [of "fst q"] parseInt10_pos [of "snd q"] parseInt10_pos [OF dw] dq
    by (simp add: p)
  with wf eq show ?thesis by blast
qed

theorem parseReference_numbers_witness:
  "parseReference (js ''Php.1.16[1.17]#01=NKO'') =
     Some \<lparr>book = js ''Php'', chapter = 1, verse = 17, wordNum = 1, type = js ''NKO''\<rparr> \<and>
   (\<exists>c v wn. (1::enat) = parseInt10 c \<and> (17::enat) = parseInt10 v \<and> (1::enat) = parseInt10 wn \<and>
      (\<exists>d\<in>set c. d \<noteq> 0x30) \<and> (\<exists>d\<in>set v. d \<noteq> 0x30) \<and> (\<exists>d\<in>set wn. d \<noteq> 0x30))"
proof -
  have wf: "wfToken (js ''Php'') (js ''1'') (js ''16'') None (Some (js ''1'', js ''17'')) (js ''01'') (js ''NKO'')"
    by (simp add: wfToken_def wfPair_def digits_def isDigit_def isAlnum_def isLineTerminator_def js_def)
  have tok: "js ''Php.1.16[1.17]#01=NKO'' =
               mkToken (js ''Php'') (js ''1'') (js ''16'') None (Some (js ''1'', js ''17'')) (js ''01'') (js ''NKO'')"
    by (simp add: mkToken_def js_def)
  have p: "parseInt10 (js ''1'') = 1" "parseInt10 (js ''17'') = 17" "parseInt10 (js ''01'') = 1"
    by (simp_all add: parseInt10_def digitsValue_def toDouble_small isDigit_def js_def numeral_eq_enat
        one_enat_def)
  have k: "0x212A \<notin> set (js ''NKO'')" "0x4B \<in> set (js ''NKO'')"
    by (simp_all add: js_def)
  have ev: "parseReference (js ''Php.1.16[1.17]#01=NKO'') =
              Some \<lparr>book = js ''Php'', chapter = 1, verse = 17, wordNum = 1, type = js ''NKO''\<rparr>"
    unfolding tok parseReference_mkToken [OF wf]
    using k by (simp add: resolvedPair_def p)
  from parseReference_numbers [OF ev] obtain c v wn where
    "1 = parseInt10 c" "17 = parseInt10 v" "1 = parseInt10 wn"
    "\<exists>d\<in>set c. d \<noteq> 0x30" "\<exists>d\<in>set v. d \<noteq> 0x30" "\<exists>d\<in>set wn. d \<noteq> 0x30"
    by (simp only: parsedRef.simps) (elim exE conjE, simp)
  then show ?thesis using ev by blast
qed

section \<open>Gematria (\<^verbatim>\<open>tests/import.test.ts\<close>)\<close>

subsection \<open>Canonical decomposition\<close>

text \<open>
  \<^verbatim>\<open>text.normalize('NFD')\<close> is a built-in of the language: Unicode normalization form D.
  Every character is replaced by its full canonical decomposition, and then every run of
  combining marks is put into canonical order, a stable sort by canonical combining class
  in which a character of class \<open>0\<close> never moves. \<open>decompRow r\<close> holds the full canonical
  decompositions of the code points \<open>c\<close> of the repertoire with \<open>c div 16 = r\<close>, and \<open>cccTable\<close>
  the non-zero combining classes of the repertoire, as ranges \<open>(first, last, class)\<close>.
\<close>

definition decompRow :: "nat \<Rightarrow> (nat \<times> nat list) list" where
  "decompRow r =
    (if r = 0x034 then
       [(0x0340, [0x0300]), (0x0341, [0x0301]), (0x0343, [0x0313]), (0x0344, [0x0308, 0x0301])]
     else if r = 0x037 then
       [(0x0374, [0x02B9]), (0x037E, [0x003B])]
     else if r = 0x038 then
       [(0x0385, [0x00A8, 0x0301]), (0x0386, [0x0391, 0x0301]), (0x0387, [0x00B7]),
        (0x0388, [0x0395, 0x0301]), (0x0389, [0x0397, 0x0301]), (0x038A, [0x0399, 0x0301]),
        (0x038C, [0x039F, 0x0301]), (0x038E, [0x03A5, 0x0301]), (0x038F, [0x03A9, 0x0301])]
     else if r = 0x039 then
       [(0x0390, [0x03B9, 0x0308, 0x0301])]
     else if r = 0x03A then
       [(0x03AA, [0x0399, 0x0308]), (0x03AB, [0x03A5, 0x0308]), (0x03AC, [0x03B1, 0x0301]),
        (0x03AD, [0x03B5, 0x0301]), (0x03AE, [0x03B7, 0x0301]), (0x03AF, [0x03B9, 0x0301])]
     else if r = 0x03B then
       [(0x03B0, [0x03C5, 0x0308, 0x0301])]
     else if r = 0x03C then
       [(0x03CA, [0x03B9, 0x0308]), (0x03CB, [0x03C5, 0x0308]), (0x03CC, [0x03BF, 0x0301]),
        (0x03CD, [0x03C5, 0x0301]), (0x03CE, [0x03C9, 0x0301])]
     else if r = 0x03D then
       [(0x03D3, [0x03D2, 0x0301]), (0x03D4, [0x03D2, 0x0308])]
     else if r = 0x1F0 then
       [(0x1F00, [0x03B1, 0x0313]), (0x1F01, [0x03B1, 0x0314]),
        (0x1F02, [0x03B1, 0x0313, 0x0300]), (0x1F03, [0x03B1, 0x0314, 0x0300]),
        (0x1F04, [0x03B1, 0x0313, 0x0301]), (0x1F05, [0x03B1, 0x0314, 0x0301]),
        (0x1F06, [0x03B1, 0x0313, 0x0342]), (0x1F07, [0x03B1, 0x0314, 0x0342]),
        (0x1F08, [0x0391, 0x0313]), (0x1F09, [0x0391, 0x0314]),
        (0x1F0A, [0x0391, 0x0313, 0x0300]), (0x1F0B, [0x0391, 0x0314, 0x0300]),
        (0x1F0C, [0x0391, 0x0313, 0x0301]), (0x1F0D, [0x0391, 0x0314, 0x0301]),
        (0x1F0E, [0x0391, 0x0313, 0x0342]), (0x1F0F, [0x0391, 0x0314, 0x0342])]
     else if r = 0x1F1 then
       [(0x1F10, [0x03B5, 0x0313]), (0x1F11, [0x03B5, 0x0314]),
        (0x1F12, [0x03B5, 0x0313, 0x0300]), (0x1F13, [0x03B5, 0x0314, 0x0300]),
        (0x1F14, [0x03B5, 0x0313, 0x0301]), (0x1F15, [0x03B5, 0x0314, 0x0301]),
        (0x1F18, [0x0395, 0x0313]), (0x1F19, [0x0395, 0x0314]),
        (0x1F1A, [0x0395, 0x0313, 0x0300]), (0x1F1B, [0x0395, 0x0314, 0x0300]),
        (0x1F1C, [0x0395, 0x0313, 0x0301]), (0x1F1D, [0x0395, 0x0314, 0x0301])]
     else if r = 0x1F2 then
       [(0x1F20, [0x03B7, 0x0313]), (0x1F21, [0x03B7, 0x0314]),
        (0x1F22, [0x03B7, 0x0313, 0x0300]), (0x1F23, [0x03B7, 0x0314, 0x0300]),
        (0x1F24, [0x03B7, 0x0313, 0x0301]), (0x1F25, [0x03B7, 0x0314, 0x0301]),
        (0x1F26, [0x03B7, 0x0313, 0x0342]), (0x1F27, [0x03B7, 0x0314, 0x0342]),
        (0x1F28, [0x0397, 0x0313]), (0x1F29, [0x0397, 0x0314]),
        (0x1F2A, [0x0397, 0x0313, 0x0300]), (0x1F2B, [0x0397, 0x0314, 0x0300]),
        (0x1F2C, [0x0397, 0x0313, 0x0301]), (0x1F2D, [0x0397, 0x0314, 0x0301]),
        (0x1F2E, [0x0397, 0x0313, 0x0342]), (0x1F2F, [0x0397, 0x0314, 0x0342])]
     else if r = 0x1F3 then
       [(0x1F30, [0x03B9, 0x0313]), (0x1F31, [0x03B9, 0x0314]),
        (0x1F32, [0x03B9, 0x0313, 0x0300]), (0x1F33, [0x03B9, 0x0314, 0x0300]),
        (0x1F34, [0x03B9, 0x0313, 0x0301]), (0x1F35, [0x03B9, 0x0314, 0x0301]),
        (0x1F36, [0x03B9, 0x0313, 0x0342]), (0x1F37, [0x03B9, 0x0314, 0x0342]),
        (0x1F38, [0x0399, 0x0313]), (0x1F39, [0x0399, 0x0314]),
        (0x1F3A, [0x0399, 0x0313, 0x0300]), (0x1F3B, [0x0399, 0x0314, 0x0300]),
        (0x1F3C, [0x0399, 0x0313, 0x0301]), (0x1F3D, [0x0399, 0x0314, 0x0301]),
        (0x1F3E, [0x0399, 0x0313, 0x0342]), (0x1F3F, [0x0399, 0x0314, 0x0342])]
     else if r = 0x1F4 then
       [(0x1F40, [0x03BF, 0x0313]), (0x1F41, [0x03BF, 0x0314]),
        (0x1F42, [0x03BF, 0x0313, 0x0300]), (0x1F43, [0x03BF, 0x0314, 0x0300]),
        (0x1F44, [0x03BF, 0x0313, 0x0301]), (0x1F45, [0x03BF, 0x0314, 0x0301]),
        (0x1F48, [0x039F, 0x0313]), (0x1F49, [0x039F, 0x0314]),
        (0x1F4A, [0x039F, 0x0313, 0x0300]), (0x1F4B, [0x039F, 0x0314, 0x0300]),
        (0x1F4C, [0x039F, 0x0313, 0x0301]), (0x1F4D, [0x039F, 0x0314, 0x0301])]
     else if r = 0x1F5 then
       [(0x1F50, [0x03C5, 0x0313]), (0x1F51, [0x03C5, 0x0314]),
        (0x1F52, [0x03C5, 0x0313, 0x0300]), (0x1F53, [0x03C5, 0x0314, 0x0300]),
        (0x1F54, [0x03C5, 0x0313, 0x0301]), (0x1F55, [0x03C5, 0x0314, 0x0301]),
        (0x1F56, [0x03C5, 0x0313, 0x0342]), (0x1F57, [0x03C5, 0x0314, 0x0342]),
        (0x1F59, [0x03A5, 0x0314]), (0x1F5B, [0x03A5, 0x0314, 0x0300]),
        (0x1F5D, [0x03A5, 0x0314, 0x0301]), (0x1F5F, [0x03A5, 0x0314, 0x0342])]
     else if r = 0x1F6 then
       [(0x1F60, [0x03C9, 0x0313]), (0x1F61, [0x03C9, 0x0314]),
        (0x1F62, [0x03C9, 0x0313, 0x0300]), (0x1F63, [0x03C9, 0x0314, 0x0300]),
        (0x1F64, [0x03C9, 0x0313, 0x0301]), (0x1F65, [0x03C9, 0x0314, 0x0301]),
        (0x1F66, [0x03C9, 0x0313, 0x0342]), (0x1F67, [0x03C9, 0x0314, 0x0342]),
        (0x1F68, [0x03A9, 0x0313]), (0x1F69, [0x03A9, 0x0314]),
        (0x1F6A, [0x03A9, 0x0313, 0x0300]), (0x1F6B, [0x03A9, 0x0314, 0x0300]),
        (0x1F6C, [0x03A9, 0x0313, 0x0301]), (0x1F6D, [0x03A9, 0x0314, 0x0301]),
        (0x1F6E, [0x03A9, 0x0313, 0x0342]), (0x1F6F, [0x03A9, 0x0314, 0x0342])]
     else if r = 0x1F7 then
       [(0x1F70, [0x03B1, 0x0300]), (0x1F71, [0x03B1, 0x0301]), (0x1F72, [0x03B5, 0x0300]),
        (0x1F73, [0x03B5, 0x0301]), (0x1F74, [0x03B7, 0x0300]), (0x1F75, [0x03B7, 0x0301]),
        (0x1F76, [0x03B9, 0x0300]), (0x1F77, [0x03B9, 0x0301]), (0x1F78, [0x03BF, 0x0300]),
        (0x1F79, [0x03BF, 0x0301]), (0x1F7A, [0x03C5, 0x0300]), (0x1F7B, [0x03C5, 0x0301]),
        (0x1F7C, [0x03C9, 0x0300]), (0x1F7D, [0x03C9, 0x0301])]
     else if r = 0x1F8 then
       [(0x1F80, [0x03B1, 0x0313, 0x0345]), (0x1F81, [0x03B1, 0x0314, 0x0345]),
        (0x1F82, [0x03B1, 0x0313, 0x0300, 0x0345]), (0x1F83, [0x03B1, 0x0314, 0x0300, 0x0345]),
        (0x1F84, [0x03B1, 0x0313, 0x0301, 0x0345]), (0x1F85, [0x03B1, 0x0314, 0x0301, 0x0345]),
        (0x1F86, [0x03B1, 0x0313, 0x0342, 0x0345]), (0x1F87, [0x03B1, 0x0314, 0x0342, 0x0345]),
        (0x1F88, [0x0391, 0x0313, 0x0345]), (0x1F89, [0x0391, 0x0314, 0x0345]),
        (0x1F8A, [0x0391, 0x0313, 0x0300, 0x0345]), (0x1F8B, [0x0391, 0x0314, 0x0300, 0x0345]),
        (0x1F8C, [0x0391, 0x0313, 0x0301, 0x0345]), (0x1F8D, [0x0391, 0x0314, 0x0301, 0x0345]),
        (0x1F8E, [0x0391, 0x0313, 0x0342, 0x0345]), (0x1F8F, [0x0391, 0x0314, 0x0342, 0x0345])]
     else if r = 0x1F9 then
       [(0x1F90, [0x03B7, 0x0313, 0x0345]), (0x1F91, [0x03B7, 0x0314, 0x0345]),
        (0x1F92, [0x03B7, 0x0313, 0x0300, 0x0345]), (0x1F93, [0x03B7, 0x0314, 0x0300, 0x0345]),
        (0x1F94, [0x03B7, 0x0313, 0x0301, 0x0345]), (0x1F95, [0x03B7, 0x0314, 0x0301, 0x0345]),
        (0x1F96, [0x03B7, 0x0313, 0x0342, 0x0345]), (0x1F97, [0x03B7, 0x0314, 0x0342, 0x0345]),
        (0x1F98, [0x0397, 0x0313, 0x0345]), (0x1F99, [0x0397, 0x0314, 0x0345]),
        (0x1F9A, [0x0397, 0x0313, 0x0300, 0x0345]), (0x1F9B, [0x0397, 0x0314, 0x0300, 0x0345]),
        (0x1F9C, [0x0397, 0x0313, 0x0301, 0x0345]), (0x1F9D, [0x0397, 0x0314, 0x0301, 0x0345]),
        (0x1F9E, [0x0397, 0x0313, 0x0342, 0x0345]), (0x1F9F, [0x0397, 0x0314, 0x0342, 0x0345])]
     else if r = 0x1FA then
       [(0x1FA0, [0x03C9, 0x0313, 0x0345]), (0x1FA1, [0x03C9, 0x0314, 0x0345]),
        (0x1FA2, [0x03C9, 0x0313, 0x0300, 0x0345]), (0x1FA3, [0x03C9, 0x0314, 0x0300, 0x0345]),
        (0x1FA4, [0x03C9, 0x0313, 0x0301, 0x0345]), (0x1FA5, [0x03C9, 0x0314, 0x0301, 0x0345]),
        (0x1FA6, [0x03C9, 0x0313, 0x0342, 0x0345]), (0x1FA7, [0x03C9, 0x0314, 0x0342, 0x0345]),
        (0x1FA8, [0x03A9, 0x0313, 0x0345]), (0x1FA9, [0x03A9, 0x0314, 0x0345]),
        (0x1FAA, [0x03A9, 0x0313, 0x0300, 0x0345]), (0x1FAB, [0x03A9, 0x0314, 0x0300, 0x0345]),
        (0x1FAC, [0x03A9, 0x0313, 0x0301, 0x0345]), (0x1FAD, [0x03A9, 0x0314, 0x0301, 0x0345]),
        (0x1FAE, [0x03A9, 0x0313, 0x0342, 0x0345]), (0x1FAF, [0x03A9, 0x0314, 0x0342, 0x0345])]
     else if r = 0x1FB then
       [(0x1FB0, [0x03B1, 0x0306]), (0x1FB1, [0x03B1, 0x0304]),
        (0x1FB2, [0x03B1, 0x0300, 0x0345]), (0x1FB3, [0x03B1, 0x0345]),
        (0x1FB4, [0x03B1, 0x0301, 0x0345]), (0x1FB6, [0x03B1, 0x0342]),
        (0x1FB7, [0x03B1, 0x0342, 0x0345]), (0x1FB8, [0x0391, 0x0306]),
        (0x1FB9, [0x0391, 0x0304]), (0x1FBA, [0x0391, 0x0300]), (0x1FBB, [0x0391, 0x0301]),
        (0x1FBC, [0x0391, 0x0345]), (0x1FBE, [0x03B9])]
     else if r = 0x1FC then
       [(0x1FC1, [0x00A8, 0x0342]), (0x1FC2, [0x03B7, 0x0300, 0x0345]),
        (0x1FC3, [0x03B7, 0x0345]), (0x1FC4, [0x03B7, 0x0301, 0x0345]),
        (0x1FC6, [0x03B7, 0x0342]), (0x1FC7, [0x03B7, 0x0342, 0x0345]),
        (0x1FC8, [0x0395, 0x0300]), (0x1FC9, [0x0395, 0x0301]), (0x1FCA, [0x0397, 0x0300]),
        (0x1FCB, [0x0397, 0x0301]), (0x1FCC, [0x0397, 0x0345]), (0x1FCD, [0x1FBF, 0x0300]),
        (0x1FCE, [0x1FBF, 0x0301]), (0x1FCF, [0x1FBF, 0x0342])]
     else if r = 0x1FD then
       [(0x1FD0, [0x03B9, 0x0306]), (0x1FD1, [0x03B9, 0x0304]),
        (0x1FD2, [0x03B9, 0x0308, 0x0300]), (0x1FD3, [0x03B9, 0x0308, 0x0301]),
        (0x1FD6, [0x03B9, 0x0342]), (0x1FD7, [0x03B9, 0x0308, 0x0342]),
        (0x1FD8, [0x0399, 0x0306]), (0x1FD9, [0x0399, 0x0304]), (0x1FDA, [0x0399, 0x0300]),
        (0x1FDB, [0x0399, 0x0301]), (0x1FDD, [0x1FFE, 0x0300]), (0x1FDE, [0x1FFE, 0x0301]),
        (0x1FDF, [0x1FFE, 0x0342])]
     else if r = 0x1FE then
       [(0x1FE0, [0x03C5, 0x0306]), (0x1FE1, [0x03C5, 0x0304]),
        (0x1FE2, [0x03C5, 0x0308, 0x0300]), (0x1FE3, [0x03C5, 0x0308, 0x0301]),
        (0x1FE4, [0x03C1, 0x0313]), (0x1FE5, [0x03C1, 0x0314]), (0x1FE6, [0x03C5, 0x0342]),
        (0x1FE7, [0x03C5, 0x0308, 0x0342]), (0x1FE8, [0x03A5, 0x0306]),
        (0x1FE9, [0x03A5, 0x0304]), (0x1FEA, [0x03A5, 0x0300]), (0x1FEB, [0x03A5, 0x0301]),
        (0x1FEC, [0x03A1, 0x0314]), (0x1FED, [0x00A8, 0x0300]), (0x1FEE, [0x00A8, 0x0301]),
        (0x1FEF, [0x0060])]
     else if r = 0x1FF then
       [(0x1FF2, [0x03C9, 0x0300, 0x0345]), (0x1FF3, [0x03C9, 0x0345]),
        (0x1FF4, [0x03C9, 0x0301, 0x0345]), (0x1FF6, [0x03C9, 0x0342]),
        (0x1FF7, [0x03C9, 0x0342, 0x0345]), (0x1FF8, [0x039F, 0x0300]),
        (0x1FF9, [0x039F, 0x0301]), (0x1FFA, [0x03A9, 0x0300]), (0x1FFB, [0x03A9, 0x0301]),
        (0x1FFC, [0x03A9, 0x0345]), (0x1FFD, [0x00B4])]
     else if r = 0x212 then
       [(0x212A, [0x004B])]
     else [])"

definition decompose :: "nat \<Rightarrow> nat list" where
  "decompose c = (case map_of (decompRow (c div 16)) c of Some ds \<Rightarrow> ds | None \<Rightarrow> [c])"

definition cccTable :: "(nat \<times> nat \<times> nat) list" where
  "cccTable = [
    (0x0300, 0x0314, 230), (0x0315, 0x0315, 232), (0x0316, 0x0319, 220), (0x031A, 0x031A, 232),
    (0x031B, 0x031B, 216), (0x031C, 0x0320, 220), (0x0321, 0x0322, 202), (0x0323, 0x0326, 220),
    (0x0327, 0x0328, 202), (0x0329, 0x0333, 220), (0x0334, 0x0338, 1), (0x0339, 0x033C, 220),
    (0x033D, 0x0344, 230), (0x0345, 0x0345, 240), (0x0346, 0x0346, 230), (0x0347, 0x0349, 220),
    (0x034A, 0x034C, 230), (0x034D, 0x034E, 220), (0x0350, 0x0352, 230), (0x0353, 0x0356, 220),
    (0x0357, 0x0357, 230), (0x0358, 0x0358, 232), (0x0359, 0x035A, 220), (0x035B, 0x035B, 230),
    (0x035C, 0x035C, 233), (0x035D, 0x035E, 234), (0x035F, 0x035F, 233), (0x0360, 0x0361, 234),
    (0x0362, 0x0362, 233), (0x0363, 0x036F, 230), (0x0483, 0x0483, 230), (0x0591, 0x0591, 220)]"

definition ccc :: "nat \<Rightarrow> nat" where
  "ccc c = (case find (\<lambda>(lo, hi, k). lo \<le> c \<and> c \<le> hi) cccTable of
              Some (lo, hi, k) \<Rightarrow> k
            | None \<Rightarrow> 0)"

text \<open>
  \<open>putMark c xs\<close> puts \<open>c\<close> in front of the ordered text \<open>xs\<close> and moves it behind the marks
  of a smaller non-zero class that follow it.
\<close>

fun putMark :: "nat \<Rightarrow> jsstring \<Rightarrow> jsstring" where
  "putMark c [] = [c]"
| "putMark c (x # xs) = (if 0 < ccc x \<and> ccc x < ccc c then x # putMark c xs else c # x # xs)"

fun reorder :: "jsstring \<Rightarrow> jsstring" where
  "reorder [] = []"
| "reorder (c # cs) = putMark c (reorder cs)"

definition nfd :: "jsstring \<Rightarrow> jsstring" where
  "nfd s = reorder (concat (map decompose s))"

subsection \<open>\<open>normalizeGreek\<close> and \<open>computeGreek\<close>\<close>

text \<open>
  \<open>normalizeGreek\<close> chains four steps: \<^verbatim>\<open>normalize('NFD')\<close>; the replacement of every
  combining iota subscript U+0345 by the small iota U+03B9; the removal of every character
  in U+0300..U+036F; \<^verbatim>\<open>toLowerCase()\<close>.
\<close>

definition iotaSubscript :: "jsstring \<Rightarrow> jsstring" where
  "iotaSubscript s = map (\<lambda>c. if c = 0x345 then 0x3B9 else c) s"

definition isCombiningMark :: "nat \<Rightarrow> bool" where
  "isCombiningMark c = (0x300 \<le> c \<and> c \<le> 0x36F)"

definition stripMarks :: "jsstring \<Rightarrow> jsstring" where
  "stripMarks s = filter (\<lambda>c. \<not> isCombiningMark c) s"

definition normalizeGreek :: "jsstring \<Rightarrow> jsstring" where
  "normalizeGreek text = toLowerCase (stripMarks (iotaSubscript (nfd text)))"

definition GREEK_VALUES :: "(nat \<times> nat) list" where
  "GREEK_VALUES = [
    (0x3B1, 1), (0x3B2, 2), (0x3B3, 3), (0x3B4, 4), (0x3B5, 5), (0x3DB, 6), (0x3B6, 7),
    (0x3B7, 8), (0x3B8, 9),
    (0x3B9, 10), (0x3BA, 20), (0x3BB, 30), (0x3BC, 40), (0x3BD, 50), (0x3BE, 60), (0x3BF, 70),
    (0x3C0, 80), (0x3DF, 90),
    (0x3C1, 100), (0x3C3, 200), (0x3C2, 200), (0x3C4, 300), (0x3C5, 400), (0x3C6, 500),
    (0x3C7, 600), (0x3C8, 700), (0x3C9, 800), (0x3E1, 900)]"

definition GREEK_ORDINAL :: "(nat \<times> nat) list" where
  "GREEK_ORDINAL = [
    (0x3B1, 1), (0x3B2, 2), (0x3B3, 3), (0x3B4, 4), (0x3B5, 5), (0x3B6, 6), (0x3B7, 7),
    (0x3B8, 8),
    (0x3B9, 9), (0x3BA, 10), (0x3BB, 11), (0x3BC, 12), (0x3BD, 13), (0x3BE, 14), (0x3BF, 15),
    (0x3C0, 16),
    (0x3C1, 17), (0x3C3, 18), (0x3C2, 18), (0x3C4, 19), (0x3C5, 20), (0x3C6, 21), (0x3C7, 22),
    (0x3C8, 23), (0x3C9, 24)]"

text \<open>
  The inner loop \<^verbatim>\<open>while (val > 0) { sum += val % 10; val = Math.floor(val / 10); }\<close> and
  the loop around it, \<^verbatim>\<open>while (val > 9) { let sum = 0; ...; val = sum; }\<close>.
\<close>

function digitSum :: "nat \<Rightarrow> nat \<Rightarrow> nat" where
  "digitSum val sum1 = (if 0 < val then digitSum (val div 10) (sum1 + val mod 10) else sum1)"
  by pat_completeness auto
termination
  by (relation "measure (\<lambda>(val, sum1). val)") auto

declare digitSum.simps [simp del]

lemma digitSum_le: "digitSum val acc \<le> val + acc"
proof (induction val acc rule: digitSum.induct)
  case (1 val acc)
  show ?case
  proof (cases "0 < val")
    case True
    have "digitSum val acc = digitSum (val div 10) (acc + val mod 10)"
      using True by (simp add: digitSum.simps [of val acc])
    also have "\<dots> \<le> val div 10 + (acc + val mod 10)" using 1 True by simp
    also have "\<dots> \<le> val + acc" by linarith
    finally show ?thesis .
  next
    case False
    then show ?thesis by (simp add: digitSum.simps [of 0 acc])
  qed
qed

lemma digitSum_less: "9 < val \<Longrightarrow> digitSum val 0 < val"
proof -
  assume v: "9 < val"
  have "digitSum val 0 = digitSum (val div 10) (val mod 10)"
    using v by (simp add: digitSum.simps [of val 0])
  also have "\<dots> \<le> val div 10 + val mod 10" by (rule digitSum_le)
  also have "\<dots> < val"
  proof -
    have q: "1 \<le> val div 10" using v by simp
    have "val = 10 * (val div 10) + val mod 10" by simp
    then show ?thesis using q by linarith
  qed
  finally show ?thesis .
qed

function reduce :: "nat \<Rightarrow> nat" where
  "reduce val = (if 9 < val then reduce (digitSum val 0) else val)"
  by pat_completeness auto
termination
  by (relation "measure (\<lambda>val. val)") (auto simp: digitSum_less)

declare reduce.simps [simp del]

record gematria =
  standard :: nat
  ordinal :: nat
  reduced :: nat

text \<open>The body of the loop over the characters of the normalized text.\<close>

definition addChar :: "gematria \<Rightarrow> nat \<Rightarrow> gematria" where
  "addChar g c =
     (let g1 = (case map_of GREEK_VALUES c of
                  Some stdVal \<Rightarrow> g\<lparr>standard := standard g + stdVal\<rparr>
                | None \<Rightarrow> g)
      in case map_of GREEK_ORDINAL c of
           Some ordVal \<Rightarrow> g1\<lparr>ordinal := ordinal g1 + ordVal, reduced := reduced g1 + reduce ordVal\<rparr>
         | None \<Rightarrow> g1)"

definition sumChars :: "jsstring \<Rightarrow> gematria" where
  "sumChars normalized = foldl addChar \<lparr>standard = 0, ordinal = 0, reduced = 0\<rparr> normalized"

definition computeGreek :: "jsstring \<Rightarrow> gematria" where
  "computeGreek text = sumChars (normalizeGreek text)"

subsection \<open>The contribution of a character\<close>

text \<open>
  What one character of the normalized text adds to each total: its entry in the table, and
  nothing when it has none.
\<close>

definition stdOf :: "nat \<Rightarrow> nat" where
  "stdOf c = (case map_of GREEK_VALUES c of Some v \<Rightarrow> v | None \<Rightarrow> 0)"

definition ordOf :: "nat \<Rightarrow> nat" where
  "ordOf c = (case map_of GREEK_ORDINAL c of Some v \<Rightarrow> v | None \<Rightarrow> 0)"

definition redOf :: "nat \<Rightarrow> nat" where
  "redOf c = (case map_of GREEK_ORDINAL c of Some v \<Rightarrow> reduce v | None \<Rightarrow> 0)"

text \<open>
  What one character of the raw text adds, for a valuation \<open>f\<close> of normalized characters:
  the values of the characters of its decomposition, the iota subscript counted as an iota,
  the other combining marks dropped, the rest lower-cased.
\<close>

definition weight :: "(nat \<Rightarrow> nat) \<Rightarrow> nat \<Rightarrow> nat" where
  "weight f c =
     sum_list (map (\<lambda>d. if d = 0x345 then f 0x3B9
                         else if isCombiningMark d then 0 else f (lowerCP d)) (decompose c))"

lemma addChar_standard: "standard (addChar g c) = standard g + stdOf c"
  by (simp add: addChar_def stdOf_def Let_def split: option.splits)

lemma addChar_ordinal: "ordinal (addChar g c) = ordinal g + ordOf c"
  by (simp add: addChar_def ordOf_def Let_def split: option.splits)

lemma addChar_reduced: "reduced (addChar g c) = reduced g + redOf c"
  by (simp add: addChar_def redOf_def Let_def split: option.splits)

lemma foldl_addChar_standard: "standard (foldl addChar g cs) = standard g + sum_list (map stdOf cs)"
  by (induction cs arbitrary: g) (simp_all add: addChar_standard)

lemma foldl_addChar_ordinal: "ordinal (foldl addChar g cs) = ordinal g + sum_list (map ordOf cs)"
  by (induction cs arbitrary: g) (simp_all add: addChar_ordinal)

lemma foldl_addChar_reduced: "reduced (foldl addChar g cs) = reduced g + sum_list (map redOf cs)"
  by (induction cs arbitrary: g) (simp_all add: addChar_reduced)

lemma sumChars_eq:
  "sumChars cs = \<lparr>standard = sum_list (map stdOf cs), ordinal = sum_list (map ordOf cs),
                  reduced = sum_list (map redOf cs)\<rparr>"
  by (simp add: sumChars_def foldl_addChar_standard foldl_addChar_ordinal foldl_addChar_reduced)

lemma digitSum_mod9: "digitSum val acc mod 9 = (val + acc) mod 9"
proof (induction val acc rule: digitSum.induct)
  case (1 val acc)
  show ?case
  proof (cases "0 < val")
    case True
    have "digitSum val acc mod 9 = (val div 10 + (acc + val mod 10)) mod 9"
      using 1 True by (simp add: digitSum.simps [of val acc])
    also have "\<dots> = (val + acc) mod 9"
    proof -
      have "val = 10 * (val div 10) + val mod 10" by simp
      then have "val + acc = 9 * (val div 10) + (val div 10 + (acc + val mod 10))"
        by linarith
      then show ?thesis by (metis mod_mult_self4)
    qed
    finally show ?thesis .
  next
    case False
    then show ?thesis by (simp add: digitSum.simps [of 0 acc])
  qed
qed

lemma reduce_mod9: "reduce val mod 9 = val mod 9"
proof (induction val rule: reduce.induct)
  case (1 val)
  show ?case
  proof (cases "9 < val")
    case True
    then show ?thesis using 1 by (simp add: reduce.simps [of val] digitSum_mod9)
  next
    case False
    then show ?thesis by (simp add: reduce.simps [of val])
  qed
qed

lemma redOf_mod9: "redOf c mod 9 = ordOf c mod 9"
  by (simp add: redOf_def ordOf_def reduce_mod9 split: option.splits)

lemma sum_list_mod9: "sum_list (map redOf cs) mod 9 = sum_list (map ordOf cs) mod 9"
proof (induction cs)
  case Nil
  then show ?case by simp
next
  case (Cons c cs)
  have "(redOf c + sum_list (map redOf cs)) mod 9 = (redOf c mod 9 + sum_list (map redOf cs) mod 9) mod 9"
    by (simp add: mod_add_eq)
  also have "\<dots> = (ordOf c mod 9 + sum_list (map ordOf cs) mod 9) mod 9"
    using Cons by (simp add: redOf_mod9)
  also have "\<dots> = (ordOf c + sum_list (map ordOf cs)) mod 9"
    by (simp add: mod_add_eq)
  finally show ?case by simp
qed

text \<open>
  C10. For every input string the ordinal and the reduced totals are congruent modulo 9; so
  are the two totals of the loop on any normalized text, and the two contributions of any
  character.
\<close>

theorem ordinal_reduced_mod9:
  "ordinal (computeGreek s) mod 9 = reduced (computeGreek s) mod 9 \<and>
   ordinal (sumChars cs) mod 9 = reduced (sumChars cs) mod 9 \<and>
   redOf c mod 9 = ordOf c mod 9"
  by (simp add: computeGreek_def sumChars_eq sum_list_mod9 redOf_mod9)

theorem ordinal_reduced_mod9_witness:
  "ordinal (computeGreek [0x3BB, 0x3CC, 0x3B3, 0x3BF, 0x3C2]) mod 9 =
   reduced (computeGreek [0x3BB, 0x3CC, 0x3B3, 0x3BF, 0x3C2]) mod 9"
  using ordinal_reduced_mod9 [of "[0x3BB, 0x3CC, 0x3B3, 0x3BF, 0x3C2]"] by blast

subsection \<open>The totals as sums over the raw text\<close>

lemma mset_putMark: "mset (putMark c xs) = add_mset c (mset xs)"
  by (induction xs) simp_all

lemma mset_reorder: "mset (reorder xs) = mset xs"
  by (induction xs) (simp_all add: mset_putMark)

lemma sum_list_mset_cong:
  assumes "mset xs = mset ys"
  shows "sum_list (map f xs) = (sum_list (map f ys) :: nat)"
proof -
  have "sum_mset (mset (map f xs)) = sum_mset (mset (map f ys))"
    using assms by (simp only: mset_map)
  then show ?thesis by (simp only: sum_mset_sum_list)
qed

lemma lowerCP_sigma: "lowerCP 0x3A3 = 0x3C3"
  by (simp add: lowerCP_def lowerRow_def)

lemma lowerCP_iota: "lowerCP 0x3B9 = 0x3B9"
  by (simp add: lowerCP_def lowerRow_def)

lemma sum_list_lowerFrom:
  assumes "f 0x3C2 = f 0x3C3"
  shows "sum_list (map f (lowerFrom prev xs)) = sum_list (map (\<lambda>c. f (lowerCP c)) xs)"
  using assms by (induction xs arbitrary: prev) (simp_all add: lowerCP_sigma)

lemma sum_list_strip_iota:
  "sum_list (map (\<lambda>c. f (lowerCP c)) (stripMarks (iotaSubscript xs))) =
   sum_list (map (\<lambda>d. if d = 0x345 then f 0x3B9
                       else if isCombiningMark d then 0 else f (lowerCP d)) xs)"
  by (induction xs) (simp_all add: stripMarks_def iotaSubscript_def isCombiningMark_def lowerCP_iota)

lemma sum_list_concat_decompose:
  "sum_list (map h (concat (map decompose s))) = sum_list (map (\<lambda>c. sum_list (map h (decompose c))) s)"
  by (induction s) simp_all

lemma sum_list_normalizeGreek:
  assumes "f 0x3C2 = f 0x3C3"
  shows "sum_list (map f (normalizeGreek s)) = sum_list (map (weight f) s)"
proof -
  let ?h = "\<lambda>d. if d = 0x345 then f 0x3B9 else if isCombiningMark d then 0 else f (lowerCP d)"
  have "sum_list (map f (normalizeGreek s)) = sum_list (map ?h (nfd s))"
    by (simp add: normalizeGreek_def toLowerCase_def sum_list_lowerFrom [OF assms] sum_list_strip_iota)
  also have "\<dots> = sum_list (map ?h (concat (map decompose s)))"
    unfolding nfd_def by (rule sum_list_mset_cong) (rule mset_reorder)
  also have "\<dots> = sum_list (map (weight f) s)"
    by (simp add: sum_list_concat_decompose weight_def [abs_def])
  finally show ?thesis .
qed

lemma final_sigma_values:
  "stdOf 0x3C2 = stdOf 0x3C3" "ordOf 0x3C2 = ordOf 0x3C3" "redOf 0x3C2 = redOf 0x3C3"
  by (simp_all add: stdOf_def ordOf_def redOf_def GREEK_VALUES_def GREEK_ORDINAL_def)

lemma computeGreek_weights:
  "computeGreek s = \<lparr>standard = sum_list (map (weight stdOf) s),
                       ordinal = sum_list (map (weight ordOf) s),
                       reduced = sum_list (map (weight redOf) s)\<rparr>"
  by (simp add: computeGreek_def sumChars_eq sum_list_normalizeGreek final_sigma_values)

text \<open>The totals are additive in the raw text.\<close>

lemma computeGreek_append:
  "computeGreek (xs @ ys) =
     \<lparr>standard = standard (computeGreek xs) + standard (computeGreek ys),
      ordinal = ordinal (computeGreek xs) + ordinal (computeGreek ys),
      reduced = reduced (computeGreek xs) + reduced (computeGreek ys)\<rparr>"
  by (simp add: computeGreek_weights)

lemma map_of_None_below:
  assumes "list_all (\<lambda>(k, v). n \<le> k) t" and "c < (n::nat)"
  shows "map_of t c = None"
proof (cases "map_of t c")
  case None
  then show ?thesis .
next
  case (Some v)
  then have "(c, v) \<in> set t" by (rule map_of_SomeD)
  then have "n \<le> c" using assms(1) by (auto simp: list_all_iff)
  then show ?thesis using assms(2) by simp
qed

lemma ordinal_keys:
  assumes "map_of GREEK_VALUES c = None"
  shows "map_of GREEK_ORDINAL c = None"
proof (cases "map_of GREEK_ORDINAL c")
  case None
  then show ?thesis .
next
  case (Some v)
  have tab: "list_all (\<lambda>(k, v). map_of GREEK_VALUES k \<noteq> None) GREEK_ORDINAL"
    by (simp add: GREEK_VALUES_def GREEK_ORDINAL_def)
  from Some have "(c, v) \<in> set GREEK_ORDINAL" by (rule map_of_SomeD)
  then have "map_of GREEK_VALUES c \<noteq> None" using tab by (auto simp: list_all_iff)
  then show ?thesis using assms by simp
qed

lemma ascii_no_entry: "c < 0x80 \<Longrightarrow> map_of GREEK_VALUES c = None"
  by (rule map_of_None_below [of "0x80"]) (simp_all add: GREEK_VALUES_def)

lemma decompRow_keys: "list_all (\<lambda>(k, ds). 0x80 \<le> k) (decompRow r)"
  by (simp add: decompRow_def)

lemma decompose_ascii: "c < 0x80 \<Longrightarrow> decompose c = [c]"
proof -
  assume c: "c < 0x80"
  have "map_of (decompRow (c div 16)) c = None"
    using decompRow_keys c by (rule map_of_None_below)
  then show ?thesis by (simp add: decompose_def)
qed

lemma lowerRow_ascii: "list_all (\<lambda>(k, v). k < 0x80 \<longrightarrow> v < 0x80) (lowerRow r)"
  by (simp add: lowerRow_def)

lemma lowerCP_ascii: "c < 0x80 \<Longrightarrow> lowerCP c < 0x80"
proof -
  assume c: "c < 0x80"
  show ?thesis
  proof (cases "map_of (lowerRow (c div 16)) c")
    case None
    then show ?thesis using c by (simp add: lowerCP_def)
  next
    case (Some v)
    have "c < 0x80 \<longrightarrow> v < 0x80"
      using map_of_list_all [OF lowerRow_ascii Some] .
    then show ?thesis using Some c by (simp add: lowerCP_def)
  qed
qed

lemma weight_ascii:
  assumes "c < 0x80" and "\<And>d. d < 0x80 \<Longrightarrow> f d = 0"
  shows "weight f c = 0"
  using assms lowerCP_ascii [of c]
  by (simp add: weight_def decompose_ascii isCombiningMark_def)

lemma ascii_values: "d < 0x80 \<Longrightarrow> stdOf d = 0 \<and> ordOf d = 0 \<and> redOf d = 0"
  using ascii_no_entry [of d] ordinal_keys [of d]
  by (simp add: stdOf_def ordOf_def redOf_def)

lemma sum_list_filter_zero:
  assumes "\<And>c. \<not> P c \<Longrightarrow> w c = (0::nat)"
  shows "sum_list (map w (filter P s)) = sum_list (map w s)"
  using assms by (induction s) simp_all


lemma addChar_no_entry:
  "map_of GREEK_VALUES c = None \<Longrightarrow> addChar g c = g"
  using ordinal_keys [of c] by (simp add: addChar_def)

lemma no_entry_values:
  "map_of GREEK_VALUES c = None \<Longrightarrow> stdOf c = 0 \<and> ordOf c = 0 \<and> redOf c = 0"
  using ordinal_keys [of c] by (simp add: stdOf_def ordOf_def redOf_def)

lemma sumChars_filter_entries:
  "sumChars (filter (\<lambda>c. map_of GREEK_VALUES c \<noteq> None) cs) = sumChars cs"
proof -
  let ?P = "\<lambda>c. map_of GREEK_VALUES c \<noteq> None"
  have "sum_list (map stdOf (filter ?P cs)) = sum_list (map stdOf cs)"
    by (rule sum_list_filter_zero) (simp add: no_entry_values)
  moreover have "sum_list (map ordOf (filter ?P cs)) = sum_list (map ordOf cs)"
    by (rule sum_list_filter_zero) (simp add: no_entry_values)
  moreover have "sum_list (map redOf (filter ?P cs)) = sum_list (map redOf cs)"
    by (rule sum_list_filter_zero) (simp add: no_entry_values)
  ultimately show ?thesis by (simp only: sumChars_eq)
qed

lemma computeGreek_single:
  "computeGreek [c] = \<lparr>standard = weight stdOf c, ordinal = weight ordOf c, reduced = weight redOf c\<rparr>"
  by (simp add: computeGreek_weights)

lemma computeGreek_filter_zero:
  "computeGreek (filter (\<lambda>c. computeGreek [c] \<noteq> \<lparr>standard = 0, ordinal = 0, reduced = 0\<rparr>) s) =
   computeGreek s"
proof -
  let ?P = "\<lambda>c. computeGreek [c] \<noteq> \<lparr>standard = 0, ordinal = 0, reduced = 0\<rparr>"
  have z: "\<And>c. \<not> ?P c \<Longrightarrow> weight stdOf c = 0 \<and> weight ordOf c = 0 \<and> weight redOf c = 0"
    by (simp add: computeGreek_single)
  have "sum_list (map (weight stdOf) (filter ?P s)) = sum_list (map (weight stdOf) s)"
    by (rule sum_list_filter_zero) (simp add: z)
  moreover have "sum_list (map (weight ordOf) (filter ?P s)) = sum_list (map (weight ordOf) s)"
    by (rule sum_list_filter_zero) (simp add: z)
  moreover have "sum_list (map (weight redOf) (filter ?P s)) = sum_list (map (weight redOf) s)"
    by (rule sum_list_filter_zero) (simp add: z)
  ultimately show ?thesis by (simp only: computeGreek_weights)
qed

lemma computeGreek_ascii: "c < 0x80 \<Longrightarrow> computeGreek [c] = \<lparr>standard = 0, ordinal = 0, reduced = 0\<rparr>"
  by (simp add: computeGreek_single weight_ascii ascii_values)

lemma computeGreek_filter_ascii: "computeGreek (filter (\<lambda>c. \<not> c < 0x80) s) = computeGreek s"
proof -
  have "sum_list (map (weight stdOf) (filter (\<lambda>c. \<not> c < 0x80) s)) = sum_list (map (weight stdOf) s)"
    by (rule sum_list_filter_zero) (simp add: weight_ascii ascii_values)
  moreover have "sum_list (map (weight ordOf) (filter (\<lambda>c. \<not> c < 0x80) s)) = sum_list (map (weight ordOf) s)"
    by (rule sum_list_filter_zero) (simp add: weight_ascii ascii_values)
  moreover have "sum_list (map (weight redOf) (filter (\<lambda>c. \<not> c < 0x80) s)) = sum_list (map (weight redOf) s)"
    by (rule sum_list_filter_zero) (simp add: weight_ascii ascii_values)
  ultimately show ?thesis by (simp only: computeGreek_weights)
qed

text \<open>
  C8. \<open>computeGreek\<close> is a total function: no step of it can fail. A character without an
  entry in a table leaves the totals of that table unchanged, a character of Basic Latin
  (spaces, punctuation, digits, Latin letters) leaves all three unchanged, and the totals of
  a string are the totals of the characters of its normalized text that have an entry.
  Removing from the raw text the characters of Basic Latin, or all characters that on their
  own have the totals \<open>0\<close>, does not change the totals.
\<close>

theorem no_entry_contributes_zero:
  "(map_of GREEK_VALUES c = None \<longrightarrow> standard (addChar g c) = standard g) \<and>
   (map_of GREEK_ORDINAL c = None \<longrightarrow>
      ordinal (addChar g c) = ordinal g \<and> reduced (addChar g c) = reduced g) \<and>
   (c < 0x80 \<longrightarrow> addChar g c = g) \<and>
   computeGreek s = sumChars (filter (\<lambda>c. map_of GREEK_VALUES c \<noteq> None) (normalizeGreek s)) \<and>
   computeGreek (filter (\<lambda>c. \<not> c < 0x80) s) = computeGreek s \<and>
   computeGreek (filter (\<lambda>c. computeGreek [c] \<noteq> \<lparr>standard = 0, ordinal = 0, reduced = 0\<rparr>) s) =
     computeGreek s"
proof -
  have 1: "map_of GREEK_VALUES c = None \<longrightarrow> standard (addChar g c) = standard g"
    by (simp add: addChar_standard stdOf_def)
  have 2: "map_of GREEK_ORDINAL c = None \<longrightarrow>
             ordinal (addChar g c) = ordinal g \<and> reduced (addChar g c) = reduced g"
    by (simp add: addChar_ordinal addChar_reduced ordOf_def redOf_def)
  have 3: "c < 0x80 \<longrightarrow> addChar g c = g"
    by (simp add: addChar_no_entry ascii_no_entry)
  have 4: "computeGreek s = sumChars (filter (\<lambda>c. map_of GREEK_VALUES c \<noteq> None) (normalizeGreek s))"
    by (simp only: computeGreek_def sumChars_filter_entries)
  show ?thesis
    using 1 2 3 4 computeGreek_filter_ascii computeGreek_filter_zero by blast
qed

theorem no_entry_contributes_zero_witness:
  "addChar \<lparr>standard = 30, ordinal = 11, reduced = 2\<rparr> 0x20 = \<lparr>standard = 30, ordinal = 11, reduced = 2\<rparr> \<and>
   standard (addChar \<lparr>standard = 30, ordinal = 11, reduced = 2\<rparr> 0x20) = 30 \<and>
   computeGreek (filter (\<lambda>c. \<not> c < 0x80) [0x3BB, 0x2C, 0x20, 0x61, 0x3BF]) =
     computeGreek [0x3BB, 0x2C, 0x20, 0x61, 0x3BF]"
  using no_entry_contributes_zero [of "0x20" "\<lparr>standard = 30, ordinal = 11, reduced = 2\<rparr>"
      "[0x3BB, 0x2C, 0x20, 0x61, 0x3BF]"]
  by (simp add: ascii_no_entry)

lemma decompose_iota_subscript: "decompose 0x345 = [0x345]"
  by (simp add: decompose_def decompRow_def)

lemma decompose_iota: "decompose 0x3B9 = [0x3B9]"
  by (simp add: decompose_def decompRow_def)

lemma weight_iota_subscript: "weight f 0x345 = f 0x3B9"
  by (simp add: weight_def decompose_iota_subscript)

lemma weight_iota: "weight f 0x3B9 = f 0x3B9"
  by (simp add: weight_def decompose_iota isCombiningMark_def lowerCP_iota)

lemma iota_values: "stdOf 0x3B9 = 10"
  by (simp add: stdOf_def GREEK_VALUES_def)

lemma nfd_arche_with: "nfd [0x1F00, 0x3C1, 0x3C7, 0x1FC7] = [0x3B1, 0x313, 0x3C1, 0x3C7, 0x3B7, 0x342, 0x345]"
  by (simp add: nfd_def decompose_def decompRow_def ccc_def cccTable_def)

lemma nfd_arche_without: "nfd [0x1F00, 0x3C1, 0x3C7, 0x3B7] = [0x3B1, 0x313, 0x3C1, 0x3C7, 0x3B7]"
  by (simp add: nfd_def decompose_def decompRow_def ccc_def cccTable_def)

lemma lower_arche: "toLowerCase [0x3B1, 0x3C1, 0x3C7, 0x3B7, 0x3B9] = [0x3B1, 0x3C1, 0x3C7, 0x3B7, 0x3B9]"
  "toLowerCase [0x3B1, 0x3C1, 0x3C7, 0x3B7] = [0x3B1, 0x3C1, 0x3C7, 0x3B7]"
  by (simp_all add: toLowerCase_def lowerCP_def lowerRow_def)

lemma arche_with: "normalizeGreek [0x1F00, 0x3C1, 0x3C7, 0x1FC7] = [0x3B1, 0x3C1, 0x3C7, 0x3B7, 0x3B9]"
  by (simp add: normalizeGreek_def nfd_arche_with iotaSubscript_def stripMarks_def isCombiningMark_def
      lower_arche)

lemma arche_without: "normalizeGreek [0x1F00, 0x3C1, 0x3C7, 0x3B7] = [0x3B1, 0x3C1, 0x3C7, 0x3B7]"
  by (simp add: normalizeGreek_def nfd_arche_without iotaSubscript_def stripMarks_def isCombiningMark_def
      lower_arche)

lemma arche_sums:
  "sum_list (map stdOf [0x3B1, 0x3C1, 0x3C7, 0x3B7, 0x3B9]) = 719"
  "sum_list (map stdOf [0x3B1, 0x3C1, 0x3C7, 0x3B7]) = 709"
  by (simp_all add: stdOf_def GREEK_VALUES_def)

text \<open>
  C3. The spelling with the iota subscript (U+1F00 U+03C1 U+03C7 U+1FC7) has the standard
  total 719 and the spelling without it 709: the difference is 10, the value of iota, and
  the normalized text ends in a plain iota. In any text, a combining iota subscript adds
  10 to the standard total, and all three totals are those of the text with a plain iota in
  its place.
\<close>

theorem iota_subscript_counts_as_iota:
  "int (standard (computeGreek [0x1F00, 0x3C1, 0x3C7, 0x1FC7])) -
     int (standard (computeGreek [0x1F00, 0x3C1, 0x3C7, 0x3B7])) = 10 \<and>
   standard (computeGreek [0x1F00, 0x3C1, 0x3C7, 0x1FC7]) = 719 \<and>
   standard (computeGreek [0x1F00, 0x3C1, 0x3C7, 0x3B7]) = 709 \<and>
   normalizeGreek [0x1F00, 0x3C1, 0x3C7, 0x1FC7] = [0x3B1, 0x3C1, 0x3C7, 0x3B7, 0x3B9] \<and>
   standard (computeGreek (xs @ 0x345 # ys)) = standard (computeGreek (xs @ ys)) + 10 \<and>
   computeGreek (xs @ 0x345 # ys) = computeGreek (xs @ 0x3B9 # ys)"
proof -
  have a: "standard (computeGreek [0x1F00, 0x3C1, 0x3C7, 0x1FC7]) = 719"
    by (simp only: computeGreek_def arche_with sumChars_eq gematria.simps arche_sums)
  have b: "standard (computeGreek [0x1F00, 0x3C1, 0x3C7, 0x3B7]) = 709"
    by (simp only: computeGreek_def arche_without sumChars_eq gematria.simps arche_sums)
  have c: "standard (computeGreek (xs @ 0x345 # ys)) = standard (computeGreek (xs @ ys)) + 10"
    by (simp add: computeGreek_weights weight_iota_subscript iota_values)
  have d: "computeGreek (xs @ 0x345 # ys) = computeGreek (xs @ 0x3B9 # ys)"
    by (simp add: computeGreek_weights weight_iota_subscript weight_iota)
  show ?thesis using a b c d arche_with by simp
qed

theorem iota_subscript_counts_as_iota_witness:
  "standard (computeGreek ([0x3C4, 0x3C9] @ 0x345 # [])) = standard (computeGreek ([0x3C4, 0x3C9] @ [])) + 10"
  using iota_subscript_counts_as_iota [of "[0x3C4, 0x3C9]" "[]"] by blast

section \<open>Idempotence of the normalization\<close>

subsection \<open>Combining classes\<close>

lemma find_SomeD: "find P xs = Some x \<Longrightarrow> P x \<and> x \<in> set xs"
  by (induction xs) (auto split: if_splits)

lemma cccTable_ranges:
  "list_all (\<lambda>(lo, hi, k). 0 < k \<and> ((0x300 \<le> lo \<and> hi \<le> 0x36F) \<or> (lo = hi \<and> (lo = 0x483 \<or> lo = 0x591)))) cccTable"
  by (simp add: cccTable_def)

lemma ccc_pos_D:
  assumes "0 < ccc c"
  shows "isCombiningMark c \<or> c = 0x483 \<or> c = 0x591"
proof (cases "find (\<lambda>(lo, hi, k). lo \<le> c \<and> c \<le> hi) cccTable")
  case None
  then show ?thesis using assms by (simp add: ccc_def)
next
  case (Some r)
  obtain lo hi k where r: "r = (lo, hi, k)" by (cases r)
  from find_SomeD [OF Some] r have in_r: "lo \<le> c" "c \<le> hi" and mem: "(lo, hi, k) \<in> set cccTable"
    by auto
  from cccTable_ranges mem
  have "(0x300 \<le> lo \<and> hi \<le> 0x36F) \<or> (lo = hi \<and> (lo = 0x483 \<or> lo = 0x591))"
    by (auto simp: list_all_iff)
  then show ?thesis using in_r by (auto simp: isCombiningMark_def)
qed

lemma ccc_mark_pos:
  assumes "isCombiningMark c" and "c \<noteq> 0x34F"
  shows "0 < ccc c"
  using assms unfolding isCombiningMark_def ccc_def cccTable_def
  by (simp split: if_splits) 


subsection \<open>Canonical order\<close>

text \<open>A text is in canonical order when no mark follows a mark of a greater class.\<close>

fun canonical :: "nat list \<Rightarrow> bool" where
  "canonical [] = True"
| "canonical [a] = True"
| "canonical (a # b # r) = (\<not> (0 < b \<and> b < a) \<and> canonical (b # r))"

definition ordered :: "jsstring \<Rightarrow> bool" where
  "ordered s = canonical (map ccc s)"

lemma ordered_Cons2:
  "ordered (x # y # r) \<longleftrightarrow> \<not> (0 < ccc y \<and> ccc y < ccc x) \<and> ordered (y # r)"
  by (simp add: ordered_def)

lemma ordered_tail: "ordered (x # xs) \<Longrightarrow> ordered xs"
  by (cases xs) (simp_all add: ordered_def)

lemma ordered_putMark: "ordered xs \<Longrightarrow> ordered (putMark c xs)"
proof (induction xs)
  case Nil
  then show ?case by (simp add: ordered_def)
next
  case (Cons x xs)
  show ?case
  proof (cases "0 < ccc x \<and> ccc x < ccc c")
    case False
    then show ?thesis using Cons.prems by (auto simp: ordered_Cons2)
  next
    case True
    have tl: "ordered (putMark c xs)" using Cons ordered_tail by blast
    show ?thesis
    proof (cases xs)
      case Nil
      then show ?thesis using True by (simp add: ordered_Cons2) (simp add: ordered_def)
    next
      case (Cons y ys)
      then show ?thesis using True tl Cons.prems
        by (auto simp: ordered_Cons2)
    qed
  qed
qed

lemma ordered_reorder: "ordered (reorder xs)"
  by (induction xs) (simp_all add: ordered_putMark, simp add: ordered_def)

lemma putMark_ordered: "ordered (x # xs) \<Longrightarrow> putMark x xs = x # xs"
  by (cases xs) (auto simp: ordered_Cons2)

lemma reorder_ordered: "ordered xs \<Longrightarrow> reorder xs = xs"
proof (induction xs)
  case Nil
  then show ?case by simp
next
  case (Cons x xs)
  then have "reorder xs = xs" using ordered_tail by blast
  then show ?case using Cons.prems by (simp add: putMark_ordered)
qed

lemma ordered_drop_mark:
  assumes "ordered (x # y # ys)" and "0 < ccc y"
  shows "ordered (x # ys)"
proof (cases ys)
  case Nil
  then show ?thesis by (simp add: ordered_def)
next
  case (Cons z zs)
  then show ?thesis using assms by (auto simp: ordered_Cons2)
qed

lemma ordered_filter_aux:
  assumes "\<forall>x\<in>set xs. \<not> P x \<longrightarrow> 0 < ccc x"
  shows "(ordered xs \<longrightarrow> ordered (filter P xs)) \<and>
         (\<forall>x. ordered (x # xs) \<longrightarrow> ordered (x # filter P xs))"
  using assms
proof (induction xs)
  case Nil
  then show ?case by simp
next
  case (Cons y ys)
  then have IH1: "ordered ys \<Longrightarrow> ordered (filter P ys)"
    and IH2: "\<And>x. ordered (x # ys) \<Longrightarrow> ordered (x # filter P ys)"
    by auto
  show ?case
  proof (cases "P y")
    case True
    have a: "ordered (y # ys) \<longrightarrow> ordered (filter P (y # ys))"
      using True IH2 by simp
    have b: "\<forall>x. ordered (x # y # ys) \<longrightarrow> ordered (x # filter P (y # ys))"
    proof (intro allI impI)
      fix x assume o: "ordered (x # y # ys)"
      then have "ordered (y # filter P ys)" using IH2 ordered_tail by blast
      then show "ordered (x # filter P (y # ys))"
        using o True by (simp add: ordered_Cons2)
    qed
    show ?thesis using a b by blast
  next
    case False
    then have pos: "0 < ccc y" using Cons.prems by simp
    have a: "ordered (y # ys) \<longrightarrow> ordered (filter P (y # ys))"
      using False IH1 ordered_tail by auto
    have b: "\<forall>x. ordered (x # y # ys) \<longrightarrow> ordered (x # filter P (y # ys))"
      using False IH2 ordered_drop_mark [OF _ pos] by auto
    show ?thesis using a b by blast
  qed
qed

lemma ordered_filter:
  "\<forall>x\<in>set xs. \<not> P x \<longrightarrow> 0 < ccc x \<Longrightarrow> ordered xs \<Longrightarrow> ordered (filter P xs)"
  using ordered_filter_aux by blast

lemma canonical_zeroed:
  "canonical (map f xs) \<Longrightarrow> \<forall>x. g x = f x \<or> g x = (0::nat) \<Longrightarrow> canonical (map g xs)"
proof (induction xs rule: induct_list012)
  case 1
  then show ?case by simp
next
  case (2 x)
  then show ?case by simp
next
  case (3 x y zs)
  then have "canonical (map g (y # zs))" by simp
  moreover have "\<not> (0 < g y \<and> g y < g x)"
    using 3(3,4) by (metis canonical.simps(3) list.simps(9) not_less_zero)
  ultimately show ?case by simp
qed

lemma ccc_iota: "ccc 0x3B9 = 0"
  by (simp add: ccc_def cccTable_def)

lemma ordered_iotaSubscript: "ordered s \<Longrightarrow> ordered (iotaSubscript s)"
proof -
  assume o: "ordered s"
  have "canonical (map ccc s)" using o by (simp add: ordered_def)
  then have "canonical (map (\<lambda>c. ccc (if c = 0x345 then 0x3B9 else c)) s)"
    by (rule canonical_zeroed) (auto simp: ccc_iota)
  then show ?thesis by (simp add: ordered_def iotaSubscript_def comp_def)
qed


subsection \<open>Facts of the tables\<close>

text \<open>
  A character is \<open>inert\<close> when it has no decomposition and \<open>lowered\<close> when it has no
  lower-case mapping.
\<close>

definition inert :: "nat \<Rightarrow> bool" where
  "inert c = (map_of (decompRow (c div 16)) c = None)"

definition lowered :: "nat \<Rightarrow> bool" where
  "lowered c = (map_of (lowerRow (c div 16)) c = None)"

lemma decompose_inert: "inert c \<Longrightarrow> decompose c = [c]"
  by (simp add: inert_def decompose_def)

lemma lowerCP_lowered: "lowered c \<Longrightarrow> lowerCP c = c"
  by (simp add: lowered_def lowerCP_def)

lemma inert_numeral:
  "inert (numeral n) \<longleftrightarrow> map_of (decompRow (numeral n div 16)) (numeral n) = None"
  by (simp add: inert_def)

lemma lowered_numeral:
  "lowered (numeral n) \<longleftrightarrow> map_of (lowerRow (numeral n div 16)) (numeral n) = None"
  by (simp add: lowered_def)

lemma decompRow_outputs: "list_all (\<lambda>(k, ds). list_all (\<lambda>d. inert d \<and> d \<noteq> 0x34F) ds) (decompRow r)"
  by (simp add: decompRow_def inert_numeral)

lemma lowerRow_no_marks:
  "list_all (\<lambda>(k, v). \<not> isCombiningMark k \<and> k \<noteq> 0x483 \<and> k \<noteq> 0x591 \<and>
                       \<not> isCombiningMark v \<and> v \<noteq> 0x483 \<and> v \<noteq> 0x591) (lowerRow r)"
  by (simp add: lowerRow_def isCombiningMark_def)

lemma lowerRow_values_lowered: "list_all (\<lambda>(k, v). lowered v) (lowerRow r)"
  by (simp add: lowerRow_def lowered_numeral)

lemma lowerRow_inert: "list_all (\<lambda>(k, v). inert k \<longrightarrow> inert v) (lowerRow r)"
  by (simp add: lowerRow_def decompRow_def inert_numeral)


lemma lowerCP_cases:
  "lowered c \<and> lowerCP c = c \<or> (\<exists>r. (c, lowerCP c) \<in> set (lowerRow r))"
proof (cases "map_of (lowerRow (c div 16)) c")
  case None
  then show ?thesis by (simp add: lowered_def lowerCP_def)
next
  case (Some v)
  then have "(c, v) \<in> set (lowerRow (c div 16))" by (rule map_of_SomeD)
  then show ?thesis using Some by (auto simp: lowerCP_def)
qed

lemma lowered_sigmas: "lowered 0x3C2" "lowered 0x3C3" "\<not> lowered 0x3A3" "lowered 0x3B9"
  by (simp_all add: lowered_numeral lowerRow_def)

lemma inert_sigmas: "inert 0x3C2" "inert 0x3C3" "inert 0x3B9" "inert 0x3A3"
  by (simp_all add: inert_numeral decompRow_def)

lemma lowerCP_props:
  "lowered (lowerCP c)"
  "inert c \<Longrightarrow> inert (lowerCP c)"
  "isCombiningMark (lowerCP c) \<longleftrightarrow> isCombiningMark c"
  "ccc (lowerCP c) = ccc c"
proof -
  have facts: "lowered (lowerCP c) \<and> (inert c \<longrightarrow> inert (lowerCP c)) \<and>
               (isCombiningMark (lowerCP c) \<longleftrightarrow> isCombiningMark c) \<and> ccc (lowerCP c) = ccc c"
  proof (rule disjE [OF lowerCP_cases [of c]])
    assume "lowered c \<and> lowerCP c = c"
    then show ?thesis by simp
  next
    assume "\<exists>r. (c, lowerCP c) \<in> set (lowerRow r)"
    then obtain r where m: "(c, lowerCP c) \<in> set (lowerRow r)" ..
    have 1: "lowered (lowerCP c)"
      using lowerRow_values_lowered [of r] m by (auto simp: list_all_iff)
    have 2: "inert c \<longrightarrow> inert (lowerCP c)"
      using lowerRow_inert [of r] m by (auto simp: list_all_iff)
    have 3: "\<not> isCombiningMark c \<and> c \<noteq> 0x483 \<and> c \<noteq> 0x591 \<and>
             \<not> isCombiningMark (lowerCP c) \<and> lowerCP c \<noteq> 0x483 \<and> lowerCP c \<noteq> 0x591"
      using lowerRow_no_marks [of r] m by (auto simp: list_all_iff)
    have "ccc c = 0" using 3 ccc_pos_D [of c] by auto
    moreover have "ccc (lowerCP c) = 0" using 3 ccc_pos_D [of "lowerCP c"] by auto
    ultimately show ?thesis using 1 2 3 by simp
  qed
  show "lowered (lowerCP c)" using facts by simp
  show "inert c \<Longrightarrow> inert (lowerCP c)" using facts by simp
  show "isCombiningMark (lowerCP c) \<longleftrightarrow> isCombiningMark c" using facts by simp
  show "ccc (lowerCP c) = ccc c" using facts by simp
qed

text \<open>What holds of every character of a lower-cased text.\<close>

definition settled :: "nat \<Rightarrow> bool" where
  "settled c = (lowered c \<and> inert c \<and> \<not> isCombiningMark c)"

lemma lowerFrom_settled:
  "list_all (\<lambda>c. inert c \<and> \<not> isCombiningMark c) xs \<Longrightarrow> list_all settled (lowerFrom prev xs)"
proof (induction xs arbitrary: prev)
  case Nil
  then show ?case by simp
next
  case (Cons c cs)
  have s: "settled 0x3C2" "settled 0x3C3"
    by (simp_all add: settled_def lowered_sigmas inert_sigmas isCombiningMark_def)
  have "settled (lowerCP c)"
    using Cons.prems by (simp add: settled_def lowerCP_props)
  then show ?case using Cons s by simp
qed

lemma ccc_sigmas: "ccc 0x3A3 = 0" "ccc 0x3C2 = 0" "ccc 0x3C3 = 0"
  by (simp_all add: ccc_def cccTable_def)

lemma ccc_lowerFrom: "map ccc (lowerFrom prev xs) = map ccc xs"
  by (induction xs arbitrary: prev) (simp_all add: lowerCP_props ccc_sigmas)

lemma lowerFrom_fixed: "list_all settled xs \<Longrightarrow> lowerFrom prev xs = xs"
proof (induction xs arbitrary: prev)
  case Nil
  then show ?case by simp
next
  case (Cons c cs)
  then have "lowered c" by (simp add: settled_def)
  then have "lowerCP c = c" "c \<noteq> 0x3A3"
    using lowered_sigmas(3) by (auto simp: lowerCP_lowered)
  then show ?case using Cons by simp
qed

lemma decompose_outputs:
  "d \<in> set (decompose c) \<Longrightarrow> inert d \<and> (c \<noteq> 0x34F \<longrightarrow> d \<noteq> 0x34F)"
proof (cases "map_of (decompRow (c div 16)) c")
  case None
  assume "d \<in> set (decompose c)"
  then have "d = c" using None by (simp add: decompose_def)
  then show ?thesis using None by (simp add: inert_def)
next
  case (Some ds)
  assume "d \<in> set (decompose c)"
  then have d: "d \<in> set ds" using Some by (simp add: decompose_def)
  from Some have "(c, ds) \<in> set (decompRow (c div 16))" by (rule map_of_SomeD)
  then have "list_all (\<lambda>d. inert d \<and> d \<noteq> 0x34F) ds"
    using decompRow_outputs [of "c div 16"] by (auto simp: list_all_iff)
  then show ?thesis using d by (auto simp: list_all_iff)
qed

lemma set_putMark: "set (putMark c xs) = insert c (set xs)"
  by (induction xs) auto

lemma set_reorder: "set (reorder xs) = set xs"
  by (induction xs) (simp_all add: set_putMark)

lemma nfd_chars:
  assumes "d \<in> set (nfd s)"
  shows "inert d \<and> (0x34F \<notin> set s \<longrightarrow> d \<noteq> 0x34F)"
proof -
  from assms obtain c where c: "c \<in> set s" and d: "d \<in> set (decompose c)"
    by (auto simp: nfd_def set_reorder)
  show ?thesis using decompose_outputs [OF d] c by auto
qed


subsection \<open>The normalized text is a fixed point\<close>

lemma concat_decompose_inert: "list_all inert xs \<Longrightarrow> concat (map decompose xs) = xs"
  by (induction xs) (simp_all add: decompose_inert)

lemma normalizeGreek_settled:
  assumes "list_all settled t" and "ordered t"
  shows "normalizeGreek t = t"
proof -
  have inert: "list_all inert t" using assms(1) by (simp add: list_all_iff settled_def)
  have nomark: "\<forall>c\<in>set t. \<not> isCombiningMark c" using assms(1) by (simp add: list_all_iff settled_def)
  have 1: "nfd t = t"
    by (simp add: nfd_def concat_decompose_inert [OF inert] reorder_ordered [OF assms(2)])
  have "\<forall>c\<in>set t. c \<noteq> 0x345" using nomark by (auto simp: isCombiningMark_def)
  then have 2: "iotaSubscript t = t" by (simp add: iotaSubscript_def map_idI)
  have 3: "stripMarks t = t" using nomark by (simp add: stripMarks_def)
  have 4: "toLowerCase t = t" by (simp add: toLowerCase_def lowerFrom_fixed [OF assms(1)])
  show ?thesis by (simp add: normalizeGreek_def 1 2 3 4)
qed

text \<open>
  C7, amended. For every string over the repertoire that does not contain the combining
  grapheme joiner U+034F, normalizing the normalized text changes nothing.
\<close>

theorem normalizeGreek_idempotent:
  assumes "list_all inRepertoire s" and "0x34F \<notin> set s"
  shows "normalizeGreek (normalizeGreek s) = normalizeGreek s"
proof -
  define m where "m = iotaSubscript (nfd s)"
  define w where "w = stripMarks m"
  have m_chars: "\<forall>c\<in>set m. inert c \<and> c \<noteq> 0x34F"
    using nfd_chars [of _ s] assms(2) by (auto simp: m_def iotaSubscript_def inert_sigmas)
  have w_chars: "list_all (\<lambda>c. inert c \<and> \<not> isCombiningMark c) w"
    using m_chars by (auto simp: w_def stripMarks_def list_all_iff)
  have "ordered m"
    unfolding m_def nfd_def by (intro ordered_iotaSubscript ordered_reorder)
  moreover have "\<forall>x\<in>set m. \<not> \<not> isCombiningMark x \<longrightarrow> 0 < ccc x"
    using m_chars ccc_mark_pos by auto
  ultimately have ow: "ordered w"
    unfolding w_def stripMarks_def by (intro ordered_filter)
  have t: "normalizeGreek s = lowerFrom [] w"
    by (simp add: normalizeGreek_def toLowerCase_def w_def m_def)
  have "list_all settled (lowerFrom [] w)"
    using w_chars by (rule lowerFrom_settled)
  moreover have "ordered (lowerFrom [] w)"
    using ow by (simp add: ordered_def ccc_lowerFrom)
  ultimately show ?thesis unfolding t by (rule normalizeGreek_settled)
qed

lemma nfd_cgj_before: "nfd [0x61, 0x483, 0x34F, 0x591] = [0x61, 0x483, 0x34F, 0x591]"
  by (simp add: nfd_def decompose_def decompRow_def ccc_def cccTable_def)

lemma nfd_cgj_after: "nfd [0x61, 0x483, 0x591] = [0x61, 0x591, 0x483]"
  by (simp add: nfd_def decompose_def decompRow_def ccc_def cccTable_def)

lemma lower_cgj:
  "toLowerCase [0x61, 0x483, 0x591] = [0x61, 0x483, 0x591]"
  "toLowerCase [0x61, 0x591, 0x483] = [0x61, 0x591, 0x483]"
  by (simp_all add: toLowerCase_def lowerCP_def lowerRow_def)

text \<open>
  C7 as stated fails. The joiner U+034F has combining class \<open>0\<close> and lies in the range that
  the normalization removes. In \<open>a\<close>, U+0483 (class 230), U+034F, U+0591 (class 220) it keeps
  the two marks apart, so the text is in canonical order; once it is removed the marks are
  adjacent and out of order, and the second normalization swaps them.
\<close>

theorem normalizeGreek_not_idempotent:
  "normalizeGreek [0x61, 0x483, 0x34F, 0x591] = [0x61, 0x483, 0x591] \<and>
   normalizeGreek (normalizeGreek [0x61, 0x483, 0x34F, 0x591]) = [0x61, 0x591, 0x483] \<and>
   normalizeGreek (normalizeGreek [0x61, 0x483, 0x34F, 0x591]) \<noteq>
     normalizeGreek [0x61, 0x483, 0x34F, 0x591] \<and>
   list_all inRepertoire [0x61, 0x483, 0x34F, 0x591]"
proof -
  have 1: "normalizeGreek [0x61, 0x483, 0x34F, 0x591] = [0x61, 0x483, 0x591]"
    by (simp add: normalizeGreek_def nfd_cgj_before iotaSubscript_def stripMarks_def
        isCombiningMark_def lower_cgj)
  have 2: "normalizeGreek [0x61, 0x483, 0x591] = [0x61, 0x591, 0x483]"
    by (simp add: normalizeGreek_def nfd_cgj_after iotaSubscript_def stripMarks_def
        isCombiningMark_def lower_cgj)
  have 3: "list_all inRepertoire [0x61, 0x483, 0x34F, 0x591]"
    by (simp add: inRepertoire_def)
  show ?thesis using 3 by (simp add: 1 2)
qed

lemma logos_normalized:
  "normalizeGreek [0x39B, 0x3CC, 0x393, 0x39F, 0x3A3] = [0x3BB, 0x3BF, 0x3B3, 0x3BF, 0x3C2]"
proof -
  have n: "nfd [0x39B, 0x3CC, 0x393, 0x39F, 0x3A3] = [0x39B, 0x3BF, 0x301, 0x393, 0x39F, 0x3A3]"
    by (simp add: nfd_def decompose_def decompRow_def ccc_def cccTable_def)
  have l: "toLowerCase [0x39B, 0x3BF, 0x393, 0x39F, 0x3A3] = [0x3BB, 0x3BF, 0x3B3, 0x3BF, 0x3C2]"
    by (simp add: toLowerCase_def lowerCP_def lowerRow_def finalSigma_def cased_def caseIgnorable_def
        inRanges_def casedRanges_def caseIgnorableRanges_def)
  show ?thesis
    by (simp add: normalizeGreek_def n iotaSubscript_def stripMarks_def isCombiningMark_def l)
qed

theorem normalizeGreek_idempotent_witness:
  "normalizeGreek (normalizeGreek [0x39B, 0x3CC, 0x393, 0x39F, 0x3A3]) = [0x3BB, 0x3BF, 0x3B3, 0x3BF, 0x3C2]"
proof -
  have r: "list_all inRepertoire [0x39B, 0x3CC, 0x393, 0x39F, 0x3A3]"
    by (simp add: inRepertoire_def)
  have c: "0x34F \<notin> set [0x39B, 0x3CC, 0x393, 0x39F, 0x3A3::nat]" by simp
  show ?thesis
    using normalizeGreek_idempotent [OF r c] by (simp only: logos_normalized)
qed

section \<open>Writing a verse (\<^verbatim>\<open>saveVerse\<close> in \<^verbatim>\<open>scripts/import.ts\<close>)\<close>

text \<open>
  A \<open>ParsedWord\<close> has the five fields of a parsed reference (the book being the OSIS
  name) and six columns of the corpus line.
\<close>

record parsedWord = parsedRef +
  greek :: jsstring
  translation :: jsstring
  strongs :: jsstring
  morph :: jsstring
  gloss :: jsstring
  editions :: jsstring

text \<open>
  A \<^verbatim>\<open>Record<string, number>\<close> is the list of its entries in insertion order, as
  \<^verbatim>\<open>Object.entries\<close> yields them. \<open>setKey\<close> is the assignment \<^verbatim>\<open>r[k] = v\<close>. The importer
  takes \<open>computeGreek\<close> from another package; here it is a parameter \<open>compute\<close> that returns
  the three totals, and \<open>gematriaRecord\<close> is the object \<^verbatim>\<open>{ standard, ordinal, reduced }\<close>.
\<close>

type_synonym numberRecord = "(string \<times> nat) list"

fun setKey :: "string \<Rightarrow> nat \<Rightarrow> numberRecord \<Rightarrow> numberRecord" where
  "setKey k v [] = [(k, v)]"
| "setKey k v ((k', v') # r) = (if k' = k then (k, v) # r else (k', v') # setKey k v r)"

definition gematriaRecord :: "gematria \<Rightarrow> numberRecord" where
  "gematriaRecord g = [(''standard'', standard g), (''ordinal'', ordinal g), (''reduced'', reduced g)]"

record wordEntry =
  position :: nat
  "text" :: jsstring
  "lemma" :: "jsstring list option"
  morph :: "jsstring option"
  strongs :: "jsstring option"
  translation :: "jsstring option"
  metadata :: numberRecord
  gematria :: numberRecord

record verseData =
  "text" :: jsstring
  words :: "wordEntry list"
  gematria :: numberRecord

text \<open>\<^verbatim>\<open>(totals[k] || 0) + v\<close> for every entry of every word, in order.\<close>

definition addEntry :: "numberRecord \<Rightarrow> string \<times> nat \<Rightarrow> numberRecord" where
  "addEntry totals e =
     setKey (fst e) ((case map_of totals (fst e) of None \<Rightarrow> 0 | Some t \<Rightarrow> t) + snd e) totals"

definition verseTotals :: "wordEntry list \<Rightarrow> numberRecord" where
  "verseTotals wordEntries =
     foldl (\<lambda>totals entry. foldl addEntry totals (wordEntry.gematria entry)) [] wordEntries"

text \<open>
  \<^verbatim>\<open>wordEntries.map(w => w.text).join(' ')\<close> and \<^verbatim>\<open>text.replace(/\s+([,.;:!?\<cdot>])/g, '$1')\<close>, the
  last character of the class being the middle dot U+00B7: every run of white space that a
  punctuation character follows is removed.
\<close>

fun joinWith :: "jsstring \<Rightarrow> jsstring list \<Rightarrow> jsstring" where
  "joinWith sep [] = []"
| "joinWith sep [x] = x"
| "joinWith sep (x # y # r) = x @ sep @ joinWith sep (y # r)"

definition isSpace :: "nat \<Rightarrow> bool" where
  "isSpace c =
     (c \<in> set [0x09, 0x0A, 0x0B, 0x0C, 0x0D, 0x20, 0xA0, 0x1680, 0x2028, 0x2029, 0x202F, 0x205F,
                0x3000, 0xFEFF] \<or> (0x2000 \<le> c \<and> c \<le> 0x200A))"

definition isPunct :: "nat \<Rightarrow> bool" where
  "isPunct c = (c \<in> set [0x2C, 0x2E, 0x3B, 0x3A, 0x21, 0x3F, 0xB7])"

function collapse :: "jsstring \<Rightarrow> jsstring" where
  "collapse [] = []"
| "collapse (c # cs) =
     (if isSpace c then
        (case dropWhile isSpace cs of
           [] \<Rightarrow> c # collapse cs
         | p # rest \<Rightarrow> if isPunct p then p # collapse rest else c # collapse cs)
      else c # collapse cs)"
  by pat_completeness auto
termination
proof (relation "measure length")
  fix c cs p rest
  assume "dropWhile isSpace cs = p # rest"
  then have "length (p # rest) \<le> length cs"
    by (metis length_dropWhile_le)
  then show "(rest, c # cs) \<in> measure length" by simp
qed auto

definition wordEntryOf :: "(jsstring \<Rightarrow> gematria) \<Rightarrow> nat \<times> parsedWord \<Rightarrow> wordEntry" where
  "wordEntryOf compute iw =
     (case iw of (idx, w) \<Rightarrow>
        \<lparr>position = idx + 1,
         wordEntry.text = greek w,
         lemma = (if parsedWord.strongs w \<noteq> [] then Some [parsedWord.strongs w] else None),
         morph = (if parsedWord.morph w \<noteq> [] then Some (js ''robinson:'' @ parsedWord.morph w) else None),
         strongs = (if parsedWord.strongs w \<noteq> [] then Some (parsedWord.strongs w) else None),
         translation = (if parsedWord.translation w \<noteq> [] then Some (parsedWord.translation w) else None),
         metadata = [],
         wordEntry.gematria = gematriaRecord (compute (greek w))\<rparr>)"

text \<open>
  \<open>saveVerse\<close> sorts the words by \<open>wordNum\<close> (the sort of the language is stable), builds
  the entries, the totals and the text, and writes the record to the file of the verse:
  the result is the key \<open>(book, chapter, verse)\<close> of that file and the record written.
\<close>

definition saveVerse ::
  "(jsstring \<Rightarrow> gematria) \<Rightarrow> jsstring \<Rightarrow> nat \<Rightarrow> nat \<Rightarrow> parsedWord list \<Rightarrow>
   (jsstring \<times> nat \<times> nat) \<times> verseData" where
  "saveVerse compute bk ch vs ws =
     (let sorted = sort_key wordNum ws;
          wordEntries = map (wordEntryOf compute) (List.enumerate 0 sorted);
          totals = verseTotals wordEntries;
          txt = collapse (joinWith (js '' '') (map wordEntry.text wordEntries))
      in ((bk, ch, vs), \<lparr>text = txt, words = wordEntries, gematria = totals\<rparr>))"


text \<open>The value of a component of a record, \<open>0\<close> for a component it does not have.\<close>

definition valueOf :: "numberRecord \<Rightarrow> string \<Rightarrow> nat" where
  "valueOf r k = (case map_of r k of None \<Rightarrow> 0 | Some v \<Rightarrow> v)"

lemma map_of_setKey: "map_of (setKey k v r) = (map_of r)(k \<mapsto> v)"
  by (induction r) (auto simp: fun_eq_iff)

lemma map_of_addEntry: "map_of (addEntry t e) = (map_of t)(fst e \<mapsto> valueOf t (fst e) + snd e)"
  by (simp add: addEntry_def map_of_setKey valueOf_def)

lemma valueOf_addEntry:
  "valueOf (addEntry t e) k = (if k = fst e then valueOf t k + snd e else valueOf t k)"
  by (simp add: valueOf_def map_of_addEntry)

lemma defined_addEntry:
  "map_of (addEntry t e) k = None \<longleftrightarrow> k \<noteq> fst e \<and> map_of t k = None"
  by (simp add: map_of_addEntry)

lemma valueOf_addRecord:
  "valueOf (foldl addEntry t (gematriaRecord g)) k =
     valueOf t k + valueOf (gematriaRecord g) k"
  by (simp add: gematriaRecord_def valueOf_addEntry) (simp add: valueOf_def)

lemma defined_addRecord:
  "map_of (foldl addEntry t (gematriaRecord g)) k = None \<longleftrightarrow>
     map_of t k = None \<and> map_of (gematriaRecord g) k = None"
  by (auto simp: gematriaRecord_def defined_addEntry)

lemma valueOf_totals:
  assumes "\<forall>e\<in>set es. \<exists>g. wordEntry.gematria e = gematriaRecord g"
  shows "valueOf (foldl (\<lambda>totals entry. foldl addEntry totals (wordEntry.gematria entry)) t es) k =
           valueOf t k + sum_list (map (\<lambda>e. valueOf (wordEntry.gematria e) k) es)"
  using assms
proof (induction es arbitrary: t)
  case Nil
  then show ?case by simp
next
  case (Cons e es)
  then obtain g where g: "wordEntry.gematria e = gematriaRecord g" by auto
  show ?case using Cons g by (simp add: valueOf_addRecord)
qed

lemma defined_totals:
  assumes "\<forall>e\<in>set es. \<exists>g. wordEntry.gematria e = gematriaRecord g"
  shows "map_of (foldl (\<lambda>totals entry. foldl addEntry totals (wordEntry.gematria entry)) t es) k = None \<longleftrightarrow>
           map_of t k = None \<and> (\<forall>e\<in>set es. map_of (wordEntry.gematria e) k = None)"
  using assms
proof (induction es arbitrary: t)
  case Nil
  then show ?case by simp
next
  case (Cons e es)
  then obtain g where g: "wordEntry.gematria e = gematriaRecord g" by auto
  show ?case using Cons g by (auto simp: defined_addRecord)
qed

lemma gematria_wordEntryOf: "wordEntry.gematria (wordEntryOf compute iw) = gematriaRecord (compute (greek (snd iw)))"
  by (cases iw) (simp add: wordEntryOf_def)



lemma words_saveVerse:
  "words (snd (saveVerse compute bk ch vs ws)) =
     map (wordEntryOf compute) (List.enumerate 0 (sort_key wordNum ws))"
  by (simp add: saveVerse_def Let_def)

lemma gematria_saveVerse:
  "verseData.gematria (snd (saveVerse compute bk ch vs ws)) =
     verseTotals (words (snd (saveVerse compute bk ch vs ws)))"
  by (simp add: saveVerse_def Let_def)

lemma component_keys:
  "map_of (gematriaRecord g) ''standard'' = Some (standard g)"
  "map_of (gematriaRecord g) ''ordinal'' = Some (ordinal g)"
  "map_of (gematriaRecord g) ''reduced'' = Some (reduced g)"
  by (simp_all add: gematriaRecord_def)

lemma total_component:
  assumes es: "\<forall>e\<in>set es. \<exists>g. wordEntry.gematria e = gematriaRecord g" and ne: "es \<noteq> []"
    and k: "\<And>g. map_of (gematriaRecord g) k \<noteq> None"
  shows "map_of (verseTotals es) k = Some (sum_list (map (\<lambda>e. valueOf (wordEntry.gematria e) k) es))"
proof -
  obtain e where e: "e \<in> set es" using ne by (cases es) auto
  then obtain g where "wordEntry.gematria e = gematriaRecord g" using es by auto
  then have "map_of (wordEntry.gematria e) k \<noteq> None" using k by simp
  then have "map_of (verseTotals es) k \<noteq> None"
    unfolding verseTotals_def using defined_totals [OF es, of "[]" k] e by auto
  moreover have "valueOf (verseTotals es) k = sum_list (map (\<lambda>e. valueOf (wordEntry.gematria e) k) es)"
    unfolding verseTotals_def using valueOf_totals [OF es, of "[]" k] by (simp add: valueOf_def)
  ultimately show ?thesis by (auto simp: valueOf_def)
qed

text \<open>A word for the examples.\<close>

definition sampleWord :: "enat \<Rightarrow> jsstring \<Rightarrow> parsedWord" where
  "sampleWord n g =
     \<lparr>book = js ''John'', chapter = 1, verse = 1, wordNum = n, type = js ''NKO'', greek = g,
      translation = [], parsedWord.strongs = [], parsedWord.morph = [], gloss = [], editions = []\<rparr>"

text \<open>
  C4. For every verse record that \<open>saveVerse\<close> writes for a non-empty list of words, each
  of the components \<open>standard\<close>, \<open>ordinal\<close> and \<open>reduced\<close> of the verse-level gematria is the
  sum of that component over the entries of the words of the record, and every entry carries
  the record computed from the text of one of the words. (For an empty list of words, which
  the importer never passes, the verse-level record has no component.)
\<close>

theorem verse_gematria_is_sum:
  "(ws \<noteq> [] \<longrightarrow>
      (\<forall>k \<in> set [''standard'', ''ordinal'', ''reduced''].
         map_of (verseData.gematria (snd (saveVerse compute bk ch vs ws))) k =
           Some (sum_list (map (\<lambda>e. valueOf (wordEntry.gematria e) k)
                   (words (snd (saveVerse compute bk ch vs ws))))))) \<and>
   (ws = [] \<longrightarrow> verseData.gematria (snd (saveVerse compute bk ch vs ws)) = []) \<and>
   length (words (snd (saveVerse compute bk ch vs ws))) = length ws \<and>
   (\<forall>e \<in> set (words (snd (saveVerse compute bk ch vs ws))).
      \<exists>w \<in> set ws. wordEntry.gematria e = gematriaRecord (compute (greek w)))"
proof -
  let ?es = "words (snd (saveVerse compute bk ch vs ws))"
  have es: "\<forall>e\<in>set ?es. \<exists>g. wordEntry.gematria e = gematriaRecord g"
    by (auto simp: words_saveVerse gematria_wordEntryOf)
  have len: "length ?es = length ws" by (simp add: words_saveVerse)
  have src: "\<forall>e \<in> set ?es. \<exists>w \<in> set ws. wordEntry.gematria e = gematriaRecord (compute (greek w))"
  proof
    fix e assume "e \<in> set ?es"
    then obtain iw where iw: "iw \<in> set (List.enumerate 0 (sort_key wordNum ws))" and e: "e = wordEntryOf compute iw"
      by (auto simp: words_saveVerse)
    have "snd iw \<in> set (sort_key wordNum ws)"
      using iw by (metis in_set_zipE enumerate_eq_zip prod.collapse)
    then have "snd iw \<in> set ws" by simp
    then show "\<exists>w \<in> set ws. wordEntry.gematria e = gematriaRecord (compute (greek w))"
      using e gematria_wordEntryOf by blast
  qed
  have sums: "ws \<noteq> [] \<longrightarrow>
      (\<forall>k \<in> set [''standard'', ''ordinal'', ''reduced''].
         map_of (verseData.gematria (snd (saveVerse compute bk ch vs ws))) k =
           Some (sum_list (map (\<lambda>e. valueOf (wordEntry.gematria e) k) ?es)))"
  proof
    assume "ws \<noteq> []"
    then have ne: "?es \<noteq> []" using len by auto
    show "\<forall>k \<in> set [''standard'', ''ordinal'', ''reduced''].
         map_of (verseData.gematria (snd (saveVerse compute bk ch vs ws))) k =
           Some (sum_list (map (\<lambda>e. valueOf (wordEntry.gematria e) k) ?es))"
    proof
      fix k :: string assume "k \<in> set [''standard'', ''ordinal'', ''reduced'']"
      then have "\<And>g. map_of (gematriaRecord g) k \<noteq> None"
        using component_keys by auto
      then show "map_of (verseData.gematria (snd (saveVerse compute bk ch vs ws))) k =
           Some (sum_list (map (\<lambda>e. valueOf (wordEntry.gematria e) k) ?es))"
        unfolding gematria_saveVerse by (rule total_component [OF es ne])
    qed
  qed
  have empty: "ws = [] \<longrightarrow> verseData.gematria (snd (saveVerse compute bk ch vs ws)) = []"
    by (simp add: saveVerse_def verseTotals_def Let_def)
  show ?thesis using sums empty len src by blast
qed


theorem verse_gematria_is_sum_witness:
  "map_of (verseData.gematria (snd (saveVerse computeGreek (js ''John'') 1 1
      [sampleWord 5 [0x3BB], sampleWord 2 [0x3B1], sampleWord 9 [0x3C9]]))) ''standard'' =
   Some (sum_list (map (\<lambda>e. valueOf (wordEntry.gematria e) ''standard'')
      (words (snd (saveVerse computeGreek (js ''John'') 1 1
         [sampleWord 5 [0x3BB], sampleWord 2 [0x3B1], sampleWord 9 [0x3C9]])))))"
  using verse_gematria_is_sum [of "[sampleWord 5 [0x3BB], sampleWord 2 [0x3B1], sampleWord 9 [0x3C9]]"
      computeGreek "js ''John''" 1 1]
  by simp





section \<open>Loading verses (\<^verbatim>\<open>src/source.ts\<close>)\<close>

text \<open>
  The loader reads the files that the importer wrote. The file system is a parameter: what
  \<^verbatim>\<open>readFile\<close> and \<^verbatim>\<open>readdir\<close> return for the path that \<^verbatim>\<open>join\<close> builds from a list of
  segments, \<open>None\<close> when the call fails (no such file or directory, not readable). The text
  of a file is represented by what \<^verbatim>\<open>JSON.parse\<close> makes of it: a value, or a syntax error.
\<close>

datatype 'v fileText = Json 'v | Malformed

fun jsonParse :: "'v fileText \<Rightarrow> 'v option" where
  "jsonParse (Json v) = Some v"
| "jsonParse Malformed = None"

record 'v fileSystem =
  readFile :: "jsstring list \<Rightarrow> 'v fileText option"
  readdir :: "jsstring list \<Rightarrow> jsstring list option"

text \<open>
  The errors a lookup can end with: the two \<^verbatim>\<open>Error\<close>s of the loader, with the arguments
  their messages are built from, and the \<^verbatim>\<open>TypeError\<close> of \<^verbatim>\<open>join\<close> for an argument that
  is not a string.
\<close>

datatype loadError =
  VerseNotFound jsstring nat nat
| ChapterNotFound jsstring nat
| PathTypeError

definition DATA_PATH :: jsstring where
  "DATA_PATH = js ''data/stepbible-tagnt-tr''"

definition BOOK_TO_OSIS :: "(jsstring \<times> jsstring) list" where
  "BOOK_TO_OSIS = map (\<lambda>(b, osis). (js b, js osis)) [
    (''Matthew'', ''Matt''), (''Mark'', ''Mark''), (''Luke'', ''Luke''), (''John'', ''John''),
    (''Acts'', ''Acts''), (''Romans'', ''Rom''), (''1 Corinthians'', ''1Cor''),
    (''2 Corinthians'', ''2Cor''), (''Galatians'', ''Gal''), (''Ephesians'', ''Eph''),
    (''Philippians'', ''Phil''), (''Colossians'', ''Col''), (''1 Thessalonians'', ''1Thess''),
    (''2 Thessalonians'', ''2Thess''), (''1 Timothy'', ''1Tim''), (''2 Timothy'', ''2Tim''),
    (''Titus'', ''Titus''), (''Philemon'', ''Phlm''), (''Hebrews'', ''Heb''), (''James'', ''Jas''),
    (''1 Peter'', ''1Pet''), (''2 Peter'', ''2Pet''), (''1 John'', ''1John''), (''2 John'', ''2John''),
    (''3 John'', ''3John''), (''Jude'', ''Jude''), (''Revelation'', ''Rev'')]"

text \<open>
  \<^verbatim>\<open>BOOK_TO_OSIS[book] || book\<close>. The table is an object literal, so a name that it does
  not have but \<^verbatim>\<open>Object.prototype\<close> has yields the inherited property, which is not a
  string: \<open>None\<close> stands for such a value.
\<close>

definition objectPrototypeKeys :: "jsstring list" where
  "objectPrototypeKeys = map js [
    ''constructor'', ''__proto__'', ''hasOwnProperty'', ''isPrototypeOf'', ''propertyIsEnumerable'',
    ''toLocaleString'', ''toString'', ''valueOf'', ''__defineGetter__'', ''__defineSetter__'',
    ''__lookupGetter__'', ''__lookupSetter__'']"

definition toOsis :: "jsstring \<Rightarrow> jsstring option" where
  "toOsis bk =
     (case map_of BOOK_TO_OSIS bk of
        Some osis \<Rightarrow> Some (if osis \<noteq> [] then osis else bk)
      | None \<Rightarrow> if bk \<in> set objectPrototypeKeys then None else Some bk)"

text \<open>\<^verbatim>\<open>String(n)\<close> for a natural number: its decimal digits.\<close>

function showNat :: "nat \<Rightarrow> jsstring" where
  "showNat n = (if n < 10 then [0x30 + n] else showNat (n div 10) @ [0x30 + n mod 10])"
  by pat_completeness auto
termination
  by (relation "measure (\<lambda>n. n)") auto

declare showNat.simps [simp del]

definition chapterPath :: "jsstring \<Rightarrow> nat \<Rightarrow> jsstring list" where
  "chapterPath osisBook ch = [DATA_PATH, osisBook, showNat ch]"

definition versePath :: "jsstring \<Rightarrow> nat \<Rightarrow> nat \<Rightarrow> jsstring list" where
  "versePath osisBook ch vs = [DATA_PATH, osisBook, showNat ch, showNat vs @ js ''.json'']"

text \<open>
  \<open>loadVerse\<close>: the path is built before the \<^verbatim>\<open>try\<close>; inside it the file is read and
  parsed, and whatever is thrown there is replaced by the one error of the \<^verbatim>\<open>catch\<close>.
\<close>

definition loadVerse :: "'v fileSystem \<Rightarrow> jsstring \<Rightarrow> nat \<Rightarrow> nat \<Rightarrow> loadError + 'v" where
  "loadVerse fs bk ch vs =
     (case toOsis bk of
        None \<Rightarrow> Inl PathTypeError
      | Some osisBook \<Rightarrow>
          (case readFile fs (versePath osisBook ch vs) of
             None \<Rightarrow> Inl (VerseNotFound bk ch vs)
           | Some content \<Rightarrow>
               (case jsonParse content of
                  None \<Rightarrow> Inl (VerseNotFound bk ch vs)
                | Some v \<Rightarrow> Inr v)))"

text \<open>
  \<open>loadChapter\<close>: the names of the directory that end in \<^verbatim>\<open>.json\<close>, sorted by the number
  \<^verbatim>\<open>parseInt\<close> reads in the name without its first \<^verbatim>\<open>.json\<close>, are read and parsed in that
  order. \<open>parseIntName\<close> is \<^verbatim>\<open>parseInt(s, 10)\<close> on any string: white space, a sign, digits;
  \<open>None\<close> is \<open>NaN\<close>. The comparator \<^verbatim>\<open>numA - numB\<close> is \<open>NaN\<close> when a number is, which the
  sort takes for \<open>0\<close>; the sort is a stable insertion sort (for names without a number
  the order that the language produces depends on its implementation).
\<close>

definition endsWith :: "jsstring \<Rightarrow> jsstring \<Rightarrow> bool" where
  "endsWith s suffix = (length suffix \<le> length s \<and> drop (length s - length suffix) s = suffix)"

fun removeFirst :: "jsstring \<Rightarrow> jsstring \<Rightarrow> jsstring" where
  "removeFirst sub [] = []"
| "removeFirst sub (c # cs) =
     (if take (length sub) (c # cs) = sub then drop (length sub) (c # cs)
      else c # removeFirst sub cs)"

definition parseIntName :: "jsstring \<Rightarrow> int option" where
  "parseIntName s =
     (let t = dropWhile (\<lambda>c. isSpace c) s;
          neg = (case t of c # _ \<Rightarrow> c = 0x2D | [] \<Rightarrow> False);
          u = (case t of c # r \<Rightarrow> if c = 0x2D \<or> c = 0x2B then r else t | [] \<Rightarrow> [])
      in if takeWhile isDigit u = [] then None
         else Some ((if neg then - 1 else 1) * int (digitsValue u)))"

definition fileNumber :: "jsstring \<Rightarrow> int option" where
  "fileNumber a = parseIntName (removeFirst (js ''.json'') a)"

definition compareFiles :: "jsstring \<Rightarrow> jsstring \<Rightarrow> int" where
  "compareFiles a b =
     (case (fileNumber a, fileNumber b) of (Some numA, Some numB) \<Rightarrow> numA - numB | _ \<Rightarrow> 0)"

fun insertFile :: "jsstring \<Rightarrow> jsstring list \<Rightarrow> jsstring list" where
  "insertFile a [] = [a]"
| "insertFile a (b # bs) = (if compareFiles a b \<le> 0 then a # b # bs else b # insertFile a bs)"

definition sortFiles :: "jsstring list \<Rightarrow> jsstring list" where
  "sortFiles files = foldr insertFile files []"

fun readAll :: "'v fileSystem \<Rightarrow> jsstring list \<Rightarrow> jsstring list \<Rightarrow> 'v list option" where
  "readAll fs dir [] = Some []"
| "readAll fs dir (file # files) =
     (case readFile fs (dir @ [file]) of
        None \<Rightarrow> None
      | Some content \<Rightarrow>
          (case jsonParse content of
             None \<Rightarrow> None
           | Some v \<Rightarrow> map_option (\<lambda>vs. v # vs) (readAll fs dir files)))"

definition loadChapter :: "'v fileSystem \<Rightarrow> jsstring \<Rightarrow> nat \<Rightarrow> loadError + 'v list" where
  "loadChapter fs bk ch =
     (case toOsis bk of
        None \<Rightarrow> Inl PathTypeError
      | Some osisBook \<Rightarrow>
          (case readdir fs (chapterPath osisBook ch) of
             None \<Rightarrow> Inl (ChapterNotFound bk ch)
           | Some files \<Rightarrow>
               (case readAll fs (chapterPath osisBook ch)
                       (sortFiles (filter (\<lambda>f. endsWith f (js ''.json'')) files)) of
                  None \<Rightarrow> Inl (ChapterNotFound bk ch)
                | Some verses \<Rightarrow> Inr verses)))"

subsection \<open>When a lookup fails\<close>

lemma set_insertFile: "set (insertFile a bs) = insert a (set bs)"
  by (induction bs) auto

lemma set_sortFiles: "set (sortFiles files) = set files"
  unfolding sortFiles_def by (induction files) (simp_all add: set_insertFile)

lemma jsonParse_None: "jsonParse content = None \<longleftrightarrow> content = Malformed"
  by (cases content) simp_all

lemma jsonParse_Some: "jsonParse content = Some v \<longleftrightarrow> content = Json v"
  by (cases content) auto

lemma readAll_None:
  "readAll fs dir files = None \<longleftrightarrow>
     (\<exists>f\<in>set files. readFile fs (dir @ [f]) = None \<or> readFile fs (dir @ [f]) = Some Malformed)"
  by (induction files) (auto simp: jsonParse_None split: option.splits)

lemma loadVerse_cases:
  assumes "toOsis bk = Some osis"
  shows "loadVerse fs bk ch vs =
           (case readFile fs (versePath osis ch vs) of
              Some (Json v) \<Rightarrow> Inr v
            | _ \<Rightarrow> Inl (VerseNotFound bk ch vs))"
  using assms by (simp add: loadVerse_def split: option.splits fileText.splits)

lemma loadChapter_error:
  assumes "toOsis bk = Some osis"
  shows "loadChapter fs bk ch = Inl (ChapterNotFound bk ch) \<longleftrightarrow>
           readdir fs (chapterPath osis ch) = None \<or>
           (\<exists>files f. readdir fs (chapterPath osis ch) = Some files \<and> f \<in> set files \<and>
              endsWith f (js ''.json'') \<and>
              (readFile fs (chapterPath osis ch @ [f]) = None \<or>
               readFile fs (chapterPath osis ch @ [f]) = Some Malformed))"
proof (cases "readdir fs (chapterPath osis ch)")
  case None
  then show ?thesis using assms by (simp add: loadChapter_def)
next
  case (Some files)
  let ?js = "sortFiles (filter (\<lambda>f. endsWith f (js ''.json'')) files)"
  have "loadChapter fs bk ch = Inl (ChapterNotFound bk ch) \<longleftrightarrow>
          readAll fs (chapterPath osis ch) ?js = None"
    using assms Some by (simp add: loadChapter_def split: option.splits)
  also have "\<dots> \<longleftrightarrow> (\<exists>f\<in>set ?js. readFile fs (chapterPath osis ch @ [f]) = None \<or>
                          readFile fs (chapterPath osis ch @ [f]) = Some Malformed)"
    by (rule readAll_None)
  also have "\<dots> \<longleftrightarrow> (\<exists>f. f \<in> set files \<and> endsWith f (js ''.json'') \<and>
              (readFile fs (chapterPath osis ch @ [f]) = None \<or>
               readFile fs (chapterPath osis ch @ [f]) = Some Malformed))"
    by (auto simp only: set_sortFiles set_filter mem_Collect_eq)
  finally show ?thesis using Some by simp
qed

text \<open>
  C9, amended. For a book name whose table lookup yields a string, \<open>loadVerse\<close> ends with
  its "not found" error exactly when the file of the verse cannot be read or its text does
  not parse, and returns the parsed record otherwise; \<open>loadChapter\<close> ends with its "not
  found" error exactly when the directory cannot be listed or one of its \<^verbatim>\<open>.json\<close> files
  cannot be read or does not parse. Neither ends with any other error: an absent verse is
  reported as "not found", and so is a file that is present and malformed.
\<close>

theorem lookup_not_found:
  assumes "toOsis bk = Some osis"
  shows "(loadVerse fs bk ch vs = Inl (VerseNotFound bk ch vs) \<longleftrightarrow>
            readFile fs (versePath osis ch vs) = None \<or>
            readFile fs (versePath osis ch vs) = Some Malformed) \<and>
         (\<forall>v. loadVerse fs bk ch vs = Inr v \<longleftrightarrow> readFile fs (versePath osis ch vs) = Some (Json v)) \<and>
         (\<forall>e. loadVerse fs bk ch vs = Inl e \<longrightarrow> e = VerseNotFound bk ch vs) \<and>
         (loadChapter fs bk ch = Inl (ChapterNotFound bk ch) \<longleftrightarrow>
            readdir fs (chapterPath osis ch) = None \<or>
            (\<exists>files f. readdir fs (chapterPath osis ch) = Some files \<and> f \<in> set files \<and>
               endsWith f (js ''.json'') \<and>
               (readFile fs (chapterPath osis ch @ [f]) = None \<or>
                readFile fs (chapterPath osis ch @ [f]) = Some Malformed))) \<and>
         (\<forall>e. loadChapter fs bk ch = Inl e \<longrightarrow> e = ChapterNotFound bk ch)"
proof -
  have 1: "loadVerse fs bk ch vs = Inl (VerseNotFound bk ch vs) \<longleftrightarrow>
            readFile fs (versePath osis ch vs) = None \<or>
            readFile fs (versePath osis ch vs) = Some Malformed"
    by (simp add: loadVerse_cases [OF assms] split: option.splits fileText.splits)
  have 2: "\<forall>v. loadVerse fs bk ch vs = Inr v \<longleftrightarrow> readFile fs (versePath osis ch vs) = Some (Json v)"
    by (simp add: loadVerse_cases [OF assms] split: option.splits fileText.splits)
  have 3: "\<forall>e. loadVerse fs bk ch vs = Inl e \<longrightarrow> e = VerseNotFound bk ch vs"
    by (simp add: loadVerse_cases [OF assms] split: option.splits fileText.splits)
  have 4: "\<forall>e. loadChapter fs bk ch = Inl e \<longrightarrow> e = ChapterNotFound bk ch"
    using assms by (simp add: loadChapter_def split: option.splits)
  show ?thesis using 1 2 3 4 loadChapter_error [OF assms] by blast
qed

text \<open>Two stores for the examples: one verse file, malformed in the first and sound in the second.\<close>

definition brokenStore :: "verseData fileSystem" where
  "brokenStore =
     \<lparr>readFile = (\<lambda>p. if p = versePath (js ''John'') 3 16 then Some Malformed else None),
      readdir = (\<lambda>p. if p = chapterPath (js ''John'') 3 then Some [js ''16.json''] else None)\<rparr>"

definition soundStore :: "verseData fileSystem" where
  "soundStore =
     \<lparr>readFile = (\<lambda>p. if p = versePath (js ''John'') 3 16
                        then Some (Json \<lparr>text = [0x3B1], words = [], gematria = []\<rparr>) else None),
      readdir = (\<lambda>p. if p = chapterPath (js ''John'') 3 then Some [js ''16.json''] else None)\<rparr>"

lemma showNat_16: "showNat 16 = [0x31, 0x36]"
  by (subst showNat.simps, simp, subst showNat.simps, simp)

lemma showNat_17: "showNat 17 = [0x31, 0x37]"
  by (subst showNat.simps, simp, subst showNat.simps, simp)

lemma toOsis_John: "toOsis (js ''John'') = Some (js ''John'')"
  by (simp add: toOsis_def BOOK_TO_OSIS_def js_def)

text \<open>
  C9 as stated fails: the verse file of John 3:16 is present and malformed, and both
  lookups report "not found".
\<close>

theorem malformed_verse_is_not_found:
  "loadVerse brokenStore (js ''John'') 3 16 = Inl (VerseNotFound (js ''John'') 3 16) \<and>
   readFile brokenStore (versePath (js ''John'') 3 16) = Some Malformed \<and>
   loadChapter brokenStore (js ''John'') 3 = Inl (ChapterNotFound (js ''John'') 3) \<and>
   readdir brokenStore (chapterPath (js ''John'') 3) = Some [js ''16.json'']"
proof -
  have v: "chapterPath (js ''John'') 3 @ [js ''16.json''] = versePath (js ''John'') 3 16"
    by (simp add: versePath_def chapterPath_def showNat_16 js_def)
  have e: "endsWith (js ''16.json'') (js ''.json'')" by (simp add: endsWith_def js_def)
  have s: "sortFiles [js ''16.json''] = [js ''16.json'']" by (simp add: sortFiles_def)
  have rf: "readFile brokenStore (versePath (js ''John'') 3 16) = Some Malformed"
    by (simp add: brokenStore_def)
  have rd: "readdir brokenStore (chapterPath (js ''John'') 3) = Some [js ''16.json'']"
    by (simp add: brokenStore_def)
  have lv: "loadVerse brokenStore (js ''John'') 3 16 = Inl (VerseNotFound (js ''John'') 3 16)"
    by (simp add: loadVerse_def toOsis_John rf)
  have lc: "loadChapter brokenStore (js ''John'') 3 = Inl (ChapterNotFound (js ''John'') 3)"
    by (simp add: loadChapter_def toOsis_John rd e s v rf)
  show ?thesis using lv rf lc rd by simp
qed

theorem lookup_not_found_witness:
  "loadVerse soundStore (js ''John'') 3 16 = Inr \<lparr>text = [0x3B1], words = [], gematria = []\<rparr> \<and>
   loadVerse soundStore (js ''John'') 3 17 = Inl (VerseNotFound (js ''John'') 3 17)"
proof -
  have ne: "versePath (js ''John'') 3 17 \<noteq> versePath (js ''John'') 3 16"
    by (simp add: versePath_def showNat_16 showNat_17)
  have a: "readFile soundStore (versePath (js ''John'') 3 16) =
             Some (Json \<lparr>text = [0x3B1], words = [], gematria = []\<rparr>)"
    by (simp add: soundStore_def)
  have b: "readFile soundStore (versePath (js ''John'') 3 17) = None"
    using ne by (simp add: soundStore_def)
  have r1: "loadVerse soundStore (js ''John'') 3 16 = Inr \<lparr>text = [0x3B1], words = [], gematria = []\<rparr>"
    using lookup_not_found [OF toOsis_John, of soundStore 3 16, THEN conjunct2, THEN conjunct1]
    by (simp add: a)
  have r2: "loadVerse soundStore (js ''John'') 3 17 = Inl (VerseNotFound (js ''John'') 3 17)"
    using lookup_not_found [OF toOsis_John, of soundStore 3 17, THEN conjunct1]
    by (simp add: b)
  show ?thesis using r1 r2 by (rule conjI)
qed

end
